theory Spec2Isabelle
  imports Complex_Main "HOL-Library.Sublist"
begin

section \<open>Python values of a policy\<close>

text \<open>
  A detector policy reaches the detectors as the raw value that \<^verbatim>\<open>json.load\<close> produced
  (or \<^verbatim>\<open>None\<close> when the caller passes nothing), so it is modelled as a JSON-shaped Python
  value. A float is a finite rational, an infinity or NaN: the comparisons of Python
  between floats, ints and bools are exact, so the order of the rationals is theirs.
  A dict is an association list whose first binding of a key is the dict's value.
\<close>

datatype pyfloat = Finite rat | PosInf | NegInf | NaN

datatype pyval =
    PNone
  | PBool bool
  | PInt int
  | PFloat pyfloat
  | PStr string
  | PList "pyval list"
  | PDict "(string \<times> pyval) list"

text \<open>The exceptions a detector can meet. \<open>SourceError\<close> is whatever an evidence source raises.\<close>

datatype exn = AttributeError | TypeError | SourceError

text \<open>Truth value of a Python object, as \<^verbatim>\<open>not x\<close> and \<^verbatim>\<open>x or y\<close> test it.\<close>

fun truthy :: "pyval \<Rightarrow> bool" where
  "truthy PNone = False"
| "truthy (PBool b) = b"
| "truthy (PInt i) = (i \<noteq> 0)"
| "truthy (PFloat f) = (f \<noteq> Finite 0)"
| "truthy (PStr s) = (s \<noteq> [])"
| "truthy (PList xs) = (xs \<noteq> [])"
| "truthy (PDict kvs) = (kvs \<noteq> [])"

text \<open>\<^verbatim>\<open>a >= b\<close> on floats: false as soon as one side is NaN.\<close>

fun float_ge :: "pyfloat \<Rightarrow> pyfloat \<Rightarrow> bool" where
  "float_ge NaN _ = False"
| "float_ge _ NaN = False"
| "float_ge PosInf _ = True"
| "float_ge _ NegInf = True"
| "float_ge (Finite a) (Finite b) = (b \<le> a)"
| "float_ge (Finite a) PosInf = False"
| "float_ge NegInf _ = False"

text \<open>
  \<^verbatim>\<open>if proba >= threshold\<close> with a policy value on the right. The probability is a
  Python float or a scalar of the classifier's library that holds a double (the pipeline
  of \<^verbatim>\<open>train_classifier.py\<close> returns a \<^verbatim>\<open>numpy.float64\<close>). Against a float, a bool
  (an int) and an int that a double holds exactly, both kinds compare by value. Against
  any other value the outcome is that of the kind of the probability, the argument
  \<open>other\<close>: a truth value, or the exception raised by the comparison or by the truth
  test of its result.
\<close>

fun py_ge :: "(pyfloat \<Rightarrow> pyval \<Rightarrow> exn + bool) \<Rightarrow> pyfloat \<Rightarrow> pyval \<Rightarrow> exn + bool" where
  "py_ge other p (PFloat t) = Inr (float_ge p t)"
| "py_ge other p (PBool b) = Inr (float_ge p (Finite (if b then 1 else 0)))"
| "py_ge other p (PInt i) =
     (if \<bar>i\<bar> \<le> 2 ^ 53 then Inr (float_ge p (Finite (of_int i))) else other p (PInt i))"
| "py_ge other p v = other p v"

text \<open>
  The other values against a Python float: an int of any size compares exactly,
  everything else raises \<^verbatim>\<open>TypeError\<close>.
\<close>

fun float_other_ge :: "pyfloat \<Rightarrow> pyval \<Rightarrow> exn + bool" where
  "float_other_ge p (PInt i) = Inr (float_ge p (Finite (of_int i)))"
| "float_other_ge p v = Inl TypeError"

text \<open>\<^verbatim>\<open>pred == 1\<close> on the label a classifier predicts.\<close>

fun py_eq_one :: "pyval \<Rightarrow> bool" where
  "py_eq_one (PInt i) = (i = 1)"
| "py_eq_one (PBool b) = b"
| "py_eq_one (PFloat f) = (f = Finite 1)"
| "py_eq_one _ = False"

section \<open>Strings\<close>

text \<open>
  A text is a list of characters, read as the code points 0 to 255. The character classes
  are those of Python on these code points: \<^verbatim>\<open>\d\<close> is 0-9, \<^verbatim>\<open>\s\<close> and
  \<^verbatim>\<open>str.strip\<close> take the ASCII white space (including the separators 0x1c to 0x1f),
  NEL and the no-break space, \<^verbatim>\<open>str.lower\<close> maps A-Z and the Latin-1 capitals.
\<close>

definition is_digit :: "char \<Rightarrow> bool" where
  "is_digit c = (c \<in> set ''0123456789'')"

definition is_alpha :: "char \<Rightarrow> bool" where
  "is_alpha c = (c \<in> set ''ABCDEFGHIJKLMNOPQRSTUVWXYZabcdefghijklmnopqrstuvwxyz'')"

definition is_space :: "char \<Rightarrow> bool" where
  "is_space c = (c \<in> set [CHR 0x09, CHR 0x0A, CHR 0x0B, CHR 0x0C, CHR 0x0D,
                            CHR 0x1C, CHR 0x1D, CHR 0x1E, CHR 0x1F, CHR 0x20,
                            CHR 0x85, CHR 0xA0])"

definition lower_char :: "char \<Rightarrow> char" where
  "lower_char c =
     (let n = (of_char c :: nat) in
      if (65 \<le> n \<and> n \<le> 90) \<or> (192 \<le> n \<and> n \<le> 222 \<and> n \<noteq> 215)
      then char_of (n + 32) else c)"

definition lower :: "string \<Rightarrow> string" where
  "lower s = map lower_char s"

text \<open>\<^verbatim>\<open>k in s\<close> on strings: \<open>k\<close> occurs in \<open>s\<close> as a contiguous substring.\<close>

fun contains :: "string \<Rightarrow> string \<Rightarrow> bool" where
  "contains k [] = (k = [])"
| "contains k (c # cs) = (prefix k (c # cs) \<or> contains k cs)"

text \<open>\<^verbatim>\<open>s.strip()\<close>.\<close>

definition strip :: "string \<Rightarrow> string" where
  "strip s = rev (dropWhile is_space (rev (dropWhile is_space s)))"

section \<open>config.py\<close>

definition FORBIDDEN_KEYWORDS :: "string list" where
  "FORBIDDEN_KEYWORDS = [''kill'', ''destroy'', ''hate'', ''unethical'', ''evil'']"

definition PROMPT_INJECTION_KEYWORDS :: "string list" where
  "PROMPT_INJECTION_KEYWORDS =
    [''ignore previous instructions'',
     ''disregard previous commands'',
     ''as an ai language model, you must'',
     ''new instruction:'',
     ''override all previous settings'',
     ''now act as'',
     ''developer mode'',
     ''do not follow the above instruction'',
     ''act as admin'',
     ''you are admin'',
     ''as admin'',
     ''reveal all the important info'',
     ''reveal all confidential'',
     ''bypass safety'',
     ''ignore safety'',
     ''disable safety'',
     ''override system message'',
     ''forget previous instructions'',
     ''do anything now'',
     ''dan mode'',
     ''bypass security'',
     ''ignore security'',
     ''disable security'',
     ''reveal system prompts'',
     ''show system prompts'',
     ''get system prompts'',
     ''leak system prompt'',
     ''dump system prompt'',
     ''print system prompt'']"

definition PII_ENTITY_TYPES_TO_REDACT :: "pyval" where
  "PII_ENTITY_TYPES_TO_REDACT = PList [PStr ''PERSON'', PStr ''GPE'', PStr ''ORG'']"

section \<open>Evidence sources\<close>

text \<open>
  The module-level handles of \<^verbatim>\<open>detectors.py\<close>, read by every detector call.
  \<^item> \<open>harmful_content_model\<close>: \<open>None\<close> when no classifier is loaded. A classifier with
    \<^verbatim>\<open>predict_proba\<close> gives the probability of the positive class
    (\<^verbatim>\<open>predict_proba([text])[0][1]\<close>), one without gives a label
    (\<^verbatim>\<open>predict([text])[0]\<close>); either call may raise.
  \<^item> \<open>nlp_ner\<close>: \<open>None\<close> when spaCy's model is not loaded; otherwise the entities of
    a text as \<open>(start_char, end_char, label_)\<close>, or an exception.
  \<^item> \<open>llm_imported\<close>: the three helpers of \<^verbatim>\<open>llm_detectors.py\<close> are imported in one
    \<^verbatim>\<open>try\<close> block, so they are all present or all \<^verbatim>\<open>None\<close>.
  \<^item> \<open>llm_classify_harmful\<close>, \<open>llm_detect_injection\<close>: the helpers
    \<^verbatim>\<open>classify_harmful\<close> and \<^verbatim>\<open>detect_injection\<close>, which return
    \<^verbatim>\<open>(bool(...), str(...))\<close> or \<^verbatim>\<open>None\<close>, or raise (their model lookup is
    outside any \<^verbatim>\<open>try\<close>). The hosted model and the memoisation behind them are opaque.
  \<^item> \<open>have_gemini\<close>: \<^verbatim>\<open>_have_gemini()\<close>, the package is present and the API key is set.
  \<^item> \<open>gemini_pii\<close>: the reply \<^verbatim>\<open>getattr(resp, "text", None) or ""\<close> of the hosted model
    to the redaction prompt built from the text and the policy, or the exception raised
    on the way there.
  \<^item> \<open>fmt_conf\<close>: \<^verbatim>\<open>f"{proba:.2f}"\<close>, the float formatting of the runtime.

  A classifier with \<^verbatim>\<open>predict_proba\<close> comes with the comparison of the scalars it
  returns against the policy values that \<open>py_ge\<close> leaves open (a NumPy scalar compares a
  list element by element and fails on an int beyond the doubles, where a Python float
  raises \<^verbatim>\<open>TypeError\<close> and compares exactly). The probability of the branch without
  \<^verbatim>\<open>predict_proba\<close> is the Python float 1.0 or 0.0. What a source raises is an
  \<^verbatim>\<open>Exception\<close>, which the handlers of the detectors catch.
\<close>

datatype classifier =
    ProbaModel "string \<Rightarrow> exn + pyfloat" "pyfloat \<Rightarrow> pyval \<Rightarrow> exn + bool"
  | PredictModel "string \<Rightarrow> exn + pyval"

type_synonym span = "nat \<times> nat \<times> string"

record sources =
  harmful_content_model :: "classifier option"
  nlp_ner :: "(string \<Rightarrow> exn + span list) option"
  llm_imported :: bool
  llm_classify_harmful :: "string \<Rightarrow> pyval \<Rightarrow> exn + (bool \<times> string) option"
  llm_detect_injection :: "string \<Rightarrow> pyval \<Rightarrow> exn + (bool \<times> string) option"
  have_gemini :: bool
  gemini_pii :: "string \<Rightarrow> pyval \<Rightarrow> exn + string"
  fmt_conf :: "pyfloat \<Rightarrow> string"

section \<open>Policy lookup\<close>

text \<open>
  \<^verbatim>\<open>(config or {}).get(key, default)\<close>: a falsy policy is replaced by the empty dict; a
  truthy value that is not a dict has no \<^verbatim>\<open>get\<close> and raises \<^verbatim>\<open>AttributeError\<close>.
\<close>

definition py_get :: "pyval \<Rightarrow> string \<Rightarrow> pyval \<Rightarrow> exn + pyval" where
  "py_get config key dflt =
     (if \<not> truthy config then Inr dflt
      else case config of
             PDict kvs \<Rightarrow> Inr (case map_of kvs key of None \<Rightarrow> dflt | Some v \<Rightarrow> v)
           | _ \<Rightarrow> Inl AttributeError)"

definition strategy :: "pyval \<Rightarrow> exn + pyval" where
  "strategy config_policy = py_get config_policy ''strategy'' (PStr ''ml'')"

text \<open>\<^verbatim>\<open>strat in ("llm", "hybrid")\<close>.\<close>

definition wants_llm :: "pyval \<Rightarrow> bool" where
  "wants_llm strat = (strat = PStr ''llm'' \<or> strat = PStr ''hybrid'')"

type_synonym verdict = "bool \<times> string option"

section \<open>detect_harmful_content\<close>

text \<open>
  The optional LLM decision: asked only under the strategies llm and hybrid and when the
  helper is imported; an exception of the helper is caught and leaves no decision.
\<close>

definition llm_decision ::
  "bool \<Rightarrow> (string \<Rightarrow> pyval \<Rightarrow> exn + (bool \<times> string) option) \<Rightarrow> pyval \<Rightarrow> string \<Rightarrow> pyval
     \<Rightarrow> (bool \<times> string) option" where
  "llm_decision imported helper strat text config_policy =
     (if wants_llm strat \<and> imported then
        (case helper text config_policy of Inl e \<Rightarrow> None | Inr res \<Rightarrow> res)
      else None)"

definition classifier_proba :: "classifier \<Rightarrow> string \<Rightarrow> exn + pyfloat" where
  "classifier_proba m text =
     (case m of
        ProbaModel predict_proba scalar_ge \<Rightarrow> predict_proba text
      | PredictModel predict \<Rightarrow>
          (case predict text of
             Inl e \<Rightarrow> Inl e
           | Inr pred \<Rightarrow> Inr (if py_eq_one pred then Finite 1 else Finite 0)))"

text \<open>\<^verbatim>\<open>if proba >= threshold\<close> on the probability that \<open>classifier_proba\<close> gives.\<close>

definition proba_ge :: "classifier \<Rightarrow> pyfloat \<Rightarrow> pyval \<Rightarrow> exn + bool" where
  "proba_ge m proba threshold =
     (case m of
        ProbaModel predict_proba scalar_ge \<Rightarrow> py_ge scalar_ge proba threshold
      | PredictModel predict \<Rightarrow> py_ge float_other_ge proba threshold)"

text \<open>
  The classifier block, a \<^verbatim>\<open>try\<close> whose handler only logs: the reason when it returns
  a positive verdict, \<open>None\<close> when control falls through to the keyword scan.
\<close>

definition ml_step :: "sources \<Rightarrow> string \<Rightarrow> pyval \<Rightarrow> string option" where
  "ml_step src text threshold =
     (case harmful_content_model src of
        None \<Rightarrow> None
      | Some m \<Rightarrow>
          (case classifier_proba m text of
             Inl e \<Rightarrow> None
           | Inr proba \<Rightarrow>
               (case proba_ge m proba threshold of
                  Inl e \<Rightarrow> None
                | Inr b \<Rightarrow>
                    if b then Some (''Harmful content detected (confidence: '' @ fmt_conf src proba @ '')'')
                    else None)))"

text \<open>\<^verbatim>\<open>for keyword in keywords: if keyword in low: return ...\<close>: the first keyword that occurs.\<close>

fun first_keyword :: "string list \<Rightarrow> string \<Rightarrow> string option" where
  "first_keyword [] low = None"
| "first_keyword (keyword # rest) low =
     (if contains keyword low then Some keyword else first_keyword rest low)"

definition quoted :: "string \<Rightarrow> string" where
  "quoted s = [CHR 0x27] @ s @ [CHR 0x27]"

definition detect_harmful_content :: "sources \<Rightarrow> string \<Rightarrow> pyval \<Rightarrow> exn + verdict" where
  "detect_harmful_content src text config_policy =
     (if text = [] then Inr (False, None)
      else case py_get config_policy ''enabled'' (PBool True) of
        Inl e \<Rightarrow> Inl e
      | Inr enabled \<Rightarrow>
        if \<not> truthy enabled then Inr (False, None)
        else (case py_get config_policy ''threshold'' (PFloat (Finite (1 / 2))) of
          Inl e \<Rightarrow> Inl e
        | Inr threshold \<Rightarrow>
          (case strategy config_policy of
            Inl e \<Rightarrow> Inl e
          | Inr strat \<Rightarrow>
            (let llm_res = llm_decision (llm_imported src) (llm_classify_harmful src)
                             strat text config_policy
             in case (if strat = PStr ''llm'' then llm_res else None) of
                  Some (is_harm, reason) \<Rightarrow> Inr (is_harm, if is_harm then Some reason else None)
                | None \<Rightarrow>
                  (case ml_step src text threshold of
                     Some reason \<Rightarrow> Inr (True, Some reason)
                   | None \<Rightarrow>
                     (case first_keyword FORBIDDEN_KEYWORDS (lower text) of
                        Some keyword \<Rightarrow>
                          Inr (True, Some (''Forbidden keyword detected: '' @ quoted keyword))
                      | None \<Rightarrow>
                        (case llm_res of
                           Some (is_harm, reason) \<Rightarrow>
                             if strat = PStr ''hybrid'' \<and> is_harm then Inr (True, Some reason)
                             else Inr (False, None)
                         | None \<Rightarrow> Inr (False, None))))))))"

section \<open>detect_prompt_injection\<close>

definition actions :: "string list" where
  "actions = [''bypass'', ''ignore'', ''disable'', ''reveal'', ''show'', ''get'', ''dump'',
              ''print'', ''leak'', ''expose'']"

definition targets :: "string list" where
  "targets = [''system prompt'', ''system prompts'', ''safety'', ''security'', ''guardrails'',
              ''rules'', ''policies'']"

text \<open>\<^verbatim>\<open>next((a for a in xs if a in low), dflt)\<close>.\<close>

definition next_in :: "string list \<Rightarrow> string \<Rightarrow> string \<Rightarrow> string" where
  "next_in xs low dflt = (case find (\<lambda>a. contains a low) xs of Some a \<Rightarrow> a | None \<Rightarrow> dflt)"

definition detect_prompt_injection :: "sources \<Rightarrow> string \<Rightarrow> pyval \<Rightarrow> exn + verdict" where
  "detect_prompt_injection src text config_policy =
     (if text = [] then Inr (False, None)
      else case py_get config_policy ''enabled'' (PBool True) of
        Inl e \<Rightarrow> Inl e
      | Inr enabled \<Rightarrow>
        if \<not> truthy enabled then Inr (False, None)
        else (case strategy config_policy of
          Inl e \<Rightarrow> Inl e
        | Inr strat \<Rightarrow>
          (let llm_res = llm_decision (llm_imported src) (llm_detect_injection src)
                           strat text config_policy
           in case (if strat = PStr ''llm'' then llm_res else None) of
                Some (is_inj, reason) \<Rightarrow> Inr (is_inj, if is_inj then Some reason else None)
              | None \<Rightarrow>
                (let low = lower text
                 in case first_keyword PROMPT_INJECTION_KEYWORDS low of
                      Some keyword \<Rightarrow>
                        Inr (True, Some (''Potential prompt injection detected: '' @ quoted keyword))
                    | None \<Rightarrow>
                      if list_ex (\<lambda>a. contains a low) actions \<and> list_ex (\<lambda>t. contains t low) targets
                      then Inr (True, Some (''Potential prompt injection detected (heuristic): ''
                                  @ next_in actions low ''action'' @ '' '' @ next_in targets low ''target''))
                      else (case llm_res of
                              Some (is_inj, reason) \<Rightarrow>
                                if strat = PStr ''hybrid'' \<and> is_inj then Inr (True, Some reason)
                                else Inr (False, None)
                            | None \<Rightarrow> Inr (False, None))))))"

section \<open>Regular expressions\<close>

text \<open>
  The two patterns of the pattern pass, as syntax trees over the constructs they use: a
  character class, a sequence, an optional group and the greedy repetition of a character
  class (\<open>Rep p lo None\<close> is \<^verbatim>\<open>{lo,}\<close>, \<open>Rep p lo (Some hi)\<close> is \<^verbatim>\<open>{lo,hi}\<close>).
\<close>

datatype regex =
    Cls "char \<Rightarrow> bool"
  | Seq regex regex
  | Opt regex
  | Rep "char \<Rightarrow> bool" nat "nat option"

definition Chr :: "char \<Rightarrow> regex" where
  "Chr c = Cls (\<lambda>x. x = c)"

text \<open>
  The backtracking engine: \<open>run re s\<close> lists the lengths of the matches of \<open>re\<close> at the
  start of \<open>s\<close>, in the order in which the engine finds them. A greedy repetition tries
  the longest run first, an optional group is tried before it is skipped, and a sequence
  explores the matches of its first part depth first. The head of the list is the match
  that \<^verbatim>\<open>re\<close> reports at this position.
\<close>

fun run :: "regex \<Rightarrow> string \<Rightarrow> nat list" where
  "run (Cls p) s = (case s of [] \<Rightarrow> [] | c # cs \<Rightarrow> if p c then [1] else [])"
| "run (Seq a b) s = concat (map (\<lambda>k. map (\<lambda>j. k + j) (run b (drop k s))) (run a s))"
| "run (Opt a) s = run a s @ [0]"
| "run (Rep p lo hi) s =
     (let n = length (takeWhile p s);
          m = (case hi of None \<Rightarrow> n | Some h \<Rightarrow> min n h)
      in rev [lo ..< Suc m])"

text \<open>
  Two static readings of a pattern: the characters that some class of it takes, and the
  least length of a match.
\<close>

fun accepts :: "regex \<Rightarrow> char \<Rightarrow> bool" where
  "accepts (Cls p) c = p c"
| "accepts (Seq a b) c = (accepts a c \<or> accepts b c)"
| "accepts (Opt a) c = accepts a c"
| "accepts (Rep p lo hi) c = p c"

fun min_len :: "regex \<Rightarrow> nat" where
  "min_len (Cls p) = 1"
| "min_len (Seq a b) = min_len a + min_len b"
| "min_len (Opt a) = 0"
| "min_len (Rep p lo hi) = lo"

text \<open>\<^verbatim>\<open>[A-Za-z0-9._%+-]\<close>, \<^verbatim>\<open>[A-Za-z0-9.-]\<close>, \<^verbatim>\<open>[\s\-\.]\<close> and \<^verbatim>\<open>[\d\s\-\.]\<close>.\<close>

definition is_local :: "char \<Rightarrow> bool" where
  "is_local c = (is_alpha c \<or> is_digit c \<or> c \<in> set ''._%+-'')"

definition is_domain :: "char \<Rightarrow> bool" where
  "is_domain c = (is_alpha c \<or> is_digit c \<or> c \<in> set ''.-'')"

definition is_sep :: "char \<Rightarrow> bool" where
  "is_sep c = (is_space c \<or> c \<in> set ''-.'')"

definition is_body :: "char \<Rightarrow> bool" where
  "is_body c = (is_digit c \<or> is_space c \<or> c \<in> set ''-.'')"

text \<open>\<^verbatim>\<open>[A-Za-z0-9._%+-]+@[A-Za-z0-9.-]+\.[A-Za-z]{2,}\<close>\<close>

definition email_re :: regex where
  "email_re =
     Seq (Rep is_local 1 None)
    (Seq (Chr CHR ''@'')
    (Seq (Rep is_domain 1 None)
    (Seq (Chr CHR ''.'')
         (Rep is_alpha 2 None))))"

text \<open>\<^verbatim>\<open>(?:(?:\+?\d[\s\-\.]*)?(?:\(\d{2,4}\)[\s\-\.]*)?\d[\d\s\-\.]{6,}\d)\<close>\<close>

definition phone_re :: regex where
  "phone_re =
     Seq (Opt (Seq (Opt (Chr CHR ''+'')) (Seq (Cls is_digit) (Rep is_sep 0 None))))
    (Seq (Opt (Seq (Chr CHR ''('') (Seq (Rep is_digit 2 (Some 4))
                 (Seq (Chr CHR '')'') (Rep is_sep 0 None)))))
    (Seq (Cls is_digit)
    (Seq (Rep is_body 6 None)
         (Cls is_digit))))"

text \<open>
  \<^verbatim>\<open>pattern.sub(repl, s)\<close>: scan from the left; where the pattern matches, emit the
  replacement of the matched text and go on behind the match; elsewhere copy one character.
  Neither pattern matches the empty string (\<open>email_re_positive\<close> and \<open>phone_re_positive\<close>
  below), so the case of an empty match, which the model treats as no match, never arises.
\<close>

fun re_sub :: "regex \<Rightarrow> (string \<Rightarrow> string) \<Rightarrow> string \<Rightarrow> string" where
  "re_sub re repl [] = []"
| "re_sub re repl (c # cs) =
     (case run re (c # cs) of
        [] \<Rightarrow> c # re_sub re repl cs
      | k # _ \<Rightarrow>
          if 0 < k
          then repl (take k (c # cs)) @ re_sub re repl (drop k (c # cs))
          else c # re_sub re repl cs)"

definition mask_email :: "string \<Rightarrow> string" where
  "mask_email m = ''[EMAIL_REDACTED]''"

text \<open>\<^verbatim>\<open>digits = re.sub(r"\D", "", m.group(0))\<close> keeps the digits of the match.\<close>

definition mask_phone :: "string \<Rightarrow> string" where
  "mask_phone m =
     (let digits = filter is_digit m
      in if length digits \<ge> 8 then ''[PHONE_REDACTED]'' else m)"

text \<open>
  Step 1 of \<^verbatim>\<open>redact_pii\<close>: the text after both substitutions, and whether it changed.
  Nothing in this block can raise on a string, so its handler is not modelled.
\<close>

definition regex_pass :: "string \<Rightarrow> string \<times> bool" where
  "regex_pass text =
     (let before_sub = text;
          redacted = re_sub email_re mask_email text;
          redacted = re_sub phone_re mask_phone redacted
      in (redacted, redacted \<noteq> before_sub))"

section \<open>llm_detectors.redact_pii\<close>

text \<open>
  The helper never raises: without Gemini it returns \<^verbatim>\<open>None\<close>, every exception of its
  body is turned into \<^verbatim>\<open>None\<close>, an empty reply is \<^verbatim>\<open>None\<close>, and otherwise it returns
  the stripped reply with \<^verbatim>\<open>changed = out != text\<close>.
\<close>

definition llm_redact_pii :: "sources \<Rightarrow> string \<Rightarrow> pyval \<Rightarrow> (string \<times> bool) option" where
  "llm_redact_pii src text cfg =
     (if \<not> have_gemini src then None
      else case gemini_pii src text cfg of
             Inl e \<Rightarrow> None
           | Inr reply \<Rightarrow>
               (let out = strip reply
                in if out = [] then None else Some (out, out \<noteq> text)))"

section \<open>redact_pii\<close>

text \<open>
  The optional pass of the external source, written three times in the source: under the
  strategies llm and hybrid and with the helper imported, the helper is called on the
  text at hand. The second component lists the texts handed to the helper.
\<close>

definition llm_pass ::
  "sources \<Rightarrow> pyval \<Rightarrow> string \<Rightarrow> pyval \<Rightarrow> (string \<times> bool) option \<times> string list" where
  "llm_pass src strat txt config_policy =
     (if wants_llm strat \<and> llm_imported src
      then (llm_redact_pii src txt config_policy, [txt])
      else (None, []))"

text \<open>
  \<^verbatim>\<open>label in entity_types\<close>: membership in a list, key of a dict, substring of a string;
  any other policy value is not iterable and raises \<^verbatim>\<open>TypeError\<close>.
\<close>

fun py_in :: "string \<Rightarrow> pyval \<Rightarrow> exn + bool" where
  "py_in label (PList xs) = Inr (PStr label \<in> set xs)"
| "py_in label (PDict kvs) = Inr (label \<in> set (map fst kvs))"
| "py_in label (PStr s) = Inr (contains label s)"
| "py_in label _ = Inl TypeError"

text \<open>\<^verbatim>\<open>[(...) for ent in doc.ents if ent.label_ in entity_types]\<close>\<close>

fun filter_spans :: "span list \<Rightarrow> pyval \<Rightarrow> exn + span list" where
  "filter_spans [] entity_types = Inr []"
| "filter_spans ((start, end, label) # ents) entity_types =
     (case py_in label entity_types of
        Inl e \<Rightarrow> Inl e
      | Inr keep \<Rightarrow>
          (case filter_spans ents entity_types of
             Inl e \<Rightarrow> Inl e
           | Inr spans \<Rightarrow> Inr (if keep then (start, end, label) # spans else spans)))"

text \<open>\<^verbatim>\<open>s[a:b]\<close> for offsets that are not negative.\<close>

definition slice :: "string \<Rightarrow> nat \<Rightarrow> nat \<Rightarrow> string" where
  "slice s a b = drop a (take b s)"

definition token :: "string \<Rightarrow> string" where
  "token label = ''['' @ label @ ''_REDACTED]''"

text \<open>One round of the merge loop on the state \<open>(redacted_parts, prev_end)\<close>.\<close>

fun merge_step :: "string \<Rightarrow> span \<Rightarrow> string list \<times> nat \<Rightarrow> string list \<times> nat" where
  "merge_step redacted (start, end, label) (redacted_parts, prev_end) =
     (if start < prev_end then (redacted_parts, max prev_end end)
      else (redacted_parts @ [slice redacted prev_end start, token label], end))"

definition merge_spans :: "string \<Rightarrow> span list \<Rightarrow> string" where
  "merge_spans redacted spans =
     (let (redacted_parts, prev_end) = fold (merge_step redacted) spans ([], 0)
      in concat (redacted_parts @ [drop prev_end redacted]))"

text \<open>
  The detector with the texts it handed to the external source. The handler of the
  entity block returns the text and flag of the pattern pass; it covers the call of the
  entity source and the filter on the labels. The helper of the external pass never
  raises, so the handlers around its three calls are not modelled.
\<close>

definition redact_pii_run ::
  "sources \<Rightarrow> string \<Rightarrow> pyval \<Rightarrow> exn + ((string \<times> bool) \<times> string list)" where
  "redact_pii_run src text config_policy =
     (if text = [] then Inr ((text, False), [])
      else case py_get config_policy ''enabled'' (PBool True) of
        Inl e \<Rightarrow> Inl e
      | Inr enabled \<Rightarrow>
        if \<not> truthy enabled then Inr ((text, False), [])
        else (case strategy config_policy of
          Inl e \<Rightarrow> Inl e
        | Inr strat \<Rightarrow>
          (case regex_pass text of (redacted, changed) \<Rightarrow>
            (case nlp_ner src of
               None \<Rightarrow>
                 (case llm_pass src strat redacted config_policy of
                    (Some (out_text, out_changed), calls) \<Rightarrow>
                      Inr ((out_text, changed \<or> out_changed), calls)
                  | (None, calls) \<Rightarrow> Inr ((redacted, changed), calls))
             | Some ner \<Rightarrow>
                 (case py_get config_policy ''entity_types'' PII_ENTITY_TYPES_TO_REDACT of
                    Inl e \<Rightarrow> Inl e
                  | Inr entity_types \<Rightarrow>
                      (case ner redacted of
                         Inl e \<Rightarrow> Inr ((redacted, changed), [])
                       | Inr ents \<Rightarrow>
                           (case filter_spans ents entity_types of
                              Inl e \<Rightarrow> Inr ((redacted, changed), [])
                            | Inr spans \<Rightarrow>
                                if spans = [] then
                                  (case llm_pass src strat redacted config_policy of
                                     (Some (out_text, out_changed), calls) \<Rightarrow>
                                       Inr ((out_text, changed \<or> out_changed), calls)
                                   | (None, calls) \<Rightarrow> Inr ((redacted, changed), calls))
                                else
                                  (let ner_out = merge_spans redacted (sort_key fst spans)
                                   in case llm_pass src strat ner_out config_policy of
                                        (Some (out_text, out_changed), calls) \<Rightarrow>
                                          Inr ((out_text, True), calls)
                                      | (None, calls) \<Rightarrow> Inr ((ner_out, True), calls)))))))))"

definition redact_pii :: "sources \<Rightarrow> string \<Rightarrow> pyval \<Rightarrow> exn + (string \<times> bool)" where
  "redact_pii src text config_policy = map_sum id fst (redact_pii_run src text config_policy)"

section \<open>Notions of the specification\<close>

text \<open>A policy dict whose strategy is \<open>s\<close> and whose other fields are those of \<open>kvs\<close>.\<close>

definition with_strategy :: "string \<Rightarrow> (string \<times> pyval) list \<Rightarrow> pyval" where
  "with_strategy s kvs = PDict ((''strategy'', PStr s) # kvs)"

text \<open>The policy that spells out the defaults of the four fields that the detectors read.\<close>

definition default_policy :: pyval where
  "default_policy =
     PDict [(''enabled'', PBool True),
            (''threshold'', PFloat (Finite (1 / 2))),
            (''strategy'', PStr ''ml''),
            (''entity_types'', PII_ENTITY_TYPES_TO_REDACT)]"

text \<open>A policy dict whose \<open>enabled\<close> field is \<open>v\<close> and whose other fields are those of \<open>kvs\<close>.\<close>

definition with_enabled :: "pyval \<Rightarrow> (string \<times> pyval) list \<Rightarrow> pyval" where
  "with_enabled v kvs = PDict ((''enabled'', v) # kvs)"

text \<open>
  The helpers of the external source are handed the policy itself. Under two policies
  they answer alike: the two classifying helpers on the text, the hosted model behind
  the redaction helper on every text.
\<close>

definition helpers_agree :: "sources \<Rightarrow> string \<Rightarrow> pyval \<Rightarrow> pyval \<Rightarrow> bool" where
  "helpers_agree src msg cfg cfg' =
     (llm_classify_harmful src msg cfg = llm_classify_harmful src msg cfg'
      \<and> llm_detect_injection src msg cfg = llm_detect_injection src msg cfg'
      \<and> (\<forall>t. gemini_pii src t cfg = gemini_pii src t cfg'))"

text \<open>
  The External Model Source is unavailable or gives no verdict: the helper is not
  imported, or its call returns \<^verbatim>\<open>None\<close> or raises.
\<close>

definition no_external_verdict ::
  "bool \<Rightarrow> (string \<Rightarrow> pyval \<Rightarrow> exn + (bool \<times> string) option) \<Rightarrow> string \<Rightarrow> pyval \<Rightarrow> bool" where
  "no_external_verdict imported helper msg cfg =
     (if imported then (case helper msg cfg of Inr (Some v) \<Rightarrow> False | _ \<Rightarrow> True) else True)"




text \<open>
  The local-only computations of the two detectors, from the results of the policy
  lookups: the short-circuits, then classifier and keyword scan for harmful content,
  phrase list and action/target rule for prompt injection.
\<close>

definition harmful_local :: "sources \<Rightarrow> string \<Rightarrow> exn + pyval \<Rightarrow> exn + pyval \<Rightarrow> exn + verdict" where
  "harmful_local src msg enabled_lookup threshold_lookup =
     (if msg = [] then Inr (False, None)
      else case enabled_lookup of
        Inl e \<Rightarrow> Inl e
      | Inr enabled \<Rightarrow>
          if \<not> truthy enabled then Inr (False, None)
          else (case threshold_lookup of
            Inl e \<Rightarrow> Inl e
          | Inr threshold \<Rightarrow>
              (case ml_step src msg threshold of
                 Some reason \<Rightarrow> Inr (True, Some reason)
               | None \<Rightarrow>
                   (case first_keyword FORBIDDEN_KEYWORDS (lower msg) of
                      Some keyword \<Rightarrow>
                        Inr (True, Some (''Forbidden keyword detected: '' @ quoted keyword))
                    | None \<Rightarrow> Inr (False, None)))))"

definition injection_local :: "string \<Rightarrow> exn + pyval \<Rightarrow> exn + verdict" where
  "injection_local msg enabled_lookup =
     (if msg = [] then Inr (False, None)
      else case enabled_lookup of
        Inl e \<Rightarrow> Inl e
      | Inr enabled \<Rightarrow>
          if \<not> truthy enabled then Inr (False, None)
          else (case first_keyword PROMPT_INJECTION_KEYWORDS (lower msg) of
                  Some keyword \<Rightarrow>
                    Inr (True, Some (''Potential prompt injection detected: '' @ quoted keyword))
                | None \<Rightarrow>
                    if list_ex (\<lambda>a. contains a (lower msg)) actions
                       \<and> list_ex (\<lambda>a. contains a (lower msg)) targets
                    then Inr (True, Some (''Potential prompt injection detected (heuristic): ''
                                @ next_in actions (lower msg) ''action'' @ '' ''
                                @ next_in targets (lower msg) ''target''))
                    else Inr (False, None)))"

text \<open>
  A policy value is a mapping; a threshold value is a number (a bool counts, being an int).
\<close>

fun is_dict :: "pyval \<Rightarrow> bool" where
  "is_dict (PDict kvs) = True"
| "is_dict _ = False"

fun is_number :: "pyval \<Rightarrow> bool" where
  "is_number (PInt i) = True"
| "is_number (PFloat f) = True"
| "is_number (PBool b) = True"
| "is_number _ = False"

text \<open>
  On the text \<open>t1\<close> the Named-Entity Source offers nothing to merge: it is not loaded, it
  fails, or none of its spans has a label in the entity types of the policy.
\<close>

definition no_entity_spans :: "sources \<Rightarrow> string \<Rightarrow> pyval \<Rightarrow> bool" where
  "no_entity_spans src t1 entity_types =
     (case nlp_ner src of
        None \<Rightarrow> True
      | Some ner \<Rightarrow>
          (case ner t1 of
             Inl e \<Rightarrow> True
           | Inr ents \<Rightarrow>
               (case filter_spans ents entity_types of
                  Inl e \<Rightarrow> True
                | Inr spans \<Rightarrow> spans = [])))"

text \<open>
  On the text \<open>t1\<close> the external source is not consulted, gives nothing, or returns
  \<open>t1\<close> itself.
\<close>

definition external_keeps :: "sources \<Rightarrow> pyval \<Rightarrow> string \<Rightarrow> pyval \<Rightarrow> bool" where
  "external_keeps src strat t1 cfg =
     (case fst (llm_pass src strat t1 cfg) of
        None \<Rightarrow> True
      | Some (out, changed) \<Rightarrow> out = t1)"

text \<open>An entity label made of letters and underscores, as those of the entity model are.\<close>

definition is_label :: "string \<Rightarrow> bool" where
  "is_label label = list_all (\<lambda>c. is_alpha c \<or> c = CHR ''_'') label"

section \<open>Sample sources\<close>

text \<open>Nothing loaded, nothing imported.\<close>

definition offline_sources :: sources where
  "offline_sources =
     \<lparr> harmful_content_model = None,
       nlp_ner = None,
       llm_imported = False,
       llm_classify_harmful = (\<lambda>t c. Inr None),
       llm_detect_injection = (\<lambda>t c. Inr None),
       have_gemini = False,
       gemini_pii = (\<lambda>t c. Inl SourceError),
       fmt_conf = (\<lambda>p. ''0.00'') \<rparr>"

text \<open>Only the hosted model, which finds nothing and echoes the text it is given.\<close>

definition cautious_sources :: sources where
  "cautious_sources =
     offline_sources
     \<lparr> llm_imported := True,
       llm_classify_harmful := (\<lambda>t c. Inr (Some (False, ''nothing harmful''))),
       llm_detect_injection := (\<lambda>t c. Inr (Some (False, ''no injection''))),
       have_gemini := True,
       gemini_pii := (\<lambda>t c. Inr t) \<rparr>"

text \<open>Only the hosted model, which flags every text.\<close>

definition alarmed_sources :: sources where
  "alarmed_sources =
     cautious_sources
     \<lparr> llm_classify_harmful := (\<lambda>t c. Inr (Some (True, ''unsafe request''))),
       llm_detect_injection := (\<lambda>t c. Inr (Some (True, ''jailbreak attempt''))) \<rparr>"

text \<open>
  A scalar comparison in the manner of NumPy on the values that the examples use: a list
  of one float is compared element by element and the one truth value obtained is the
  outcome, every other value, a string among them, raises \<^verbatim>\<open>TypeError\<close>.
\<close>

definition elementwise_ge :: "pyfloat \<Rightarrow> pyval \<Rightarrow> exn + bool" where
  "elementwise_ge p v = (case v of PList [PFloat t] \<Rightarrow> Inr (float_ge p t) | _ \<Rightarrow> Inl TypeError)"

text \<open>A classifier that gives every text the probability 0.9, and nothing else.\<close>

definition classifier_sources :: sources where
  "classifier_sources =
     offline_sources
     \<lparr> harmful_content_model := Some (ProbaModel (\<lambda>t. Inr (Finite (9 / 10))) elementwise_ge),
       fmt_conf := (\<lambda>p. ''0.90'') \<rparr>"

text \<open>An entity source that fails on every text, with the hosted model at hand.\<close>

definition broken_ner_sources :: sources where
  "broken_ner_sources = cautious_sources \<lparr> nlp_ner := Some (\<lambda>t. Inl SourceError) \<rparr>"

text \<open>
  The hosted model as in \<open>cautious_sources\<close>, and an entity source that finds the year
  at the start of one text and nothing in any other text.
\<close>

definition dating_sources :: sources where
  "dating_sources =
     cautious_sources
     \<lparr> nlp_ner := Some (\<lambda>t. if t = ''2001 - 1 (12) 345 - 67''
                              then Inr [(0, 4, ''DATE'')] else Inr []) \<rparr>"

section \<open>Policy lookup: basic facts\<close>

lemma py_get_dict:
  "map_of kvs key = Some v \<Longrightarrow> py_get (PDict kvs) key dflt = Inr v"
  by (cases kvs) (auto simp: py_get_def)

lemma py_get_total:
  "py_get cfg key dflt = Inr v \<Longrightarrow> \<exists>v'. py_get cfg key' dflt' = Inr v'"
  by (cases cfg) (auto simp: py_get_def split: if_splits)

lemma strategy_total:
  "py_get cfg key dflt = Inr v \<Longrightarrow> \<exists>s. strategy cfg = Inr s"
  unfolding strategy_def by (rule py_get_total)

lemma with_strategy_get:
  "strategy (with_strategy s kvs) = Inr (PStr s)"
  "key \<noteq> ''strategy'' \<Longrightarrow>
     py_get (with_strategy s kvs) key d = py_get (with_strategy s' kvs) key d"
  by (auto simp: with_strategy_def strategy_def py_get_def)

section \<open>The disabled policy\<close>

text \<open>
  Claim C2. Under a policy whose \<open>enabled\<close> field is false, the two classifying
  detectors return the negative verdict \<open>(False, None)\<close> and the redaction returns the
  input text with \<open>changed = False\<close>, for every text, whatever the other fields of the
  policy are and whatever sources are available.
\<close>

theorem disabled_is_negative:
  assumes "map_of kvs ''enabled'' = Some (PBool False)"
  shows "detect_harmful_content src msg (PDict kvs) = Inr (False, None)
       \<and> detect_prompt_injection src msg (PDict kvs) = Inr (False, None)
       \<and> redact_pii src msg (PDict kvs) = Inr (msg, False)"
  using py_get_dict [OF assms]
  by (simp add: detect_harmful_content_def detect_prompt_injection_def redact_pii_def
      redact_pii_run_def)

theorem disabled_is_negative_witness:
  "map_of [(''enabled'', PBool False), (''strategy'', PStr ''hybrid'')] ''enabled''
     = Some (PBool False)
   \<and> detect_harmful_content alarmed_sources ''I hate you''
        (PDict [(''enabled'', PBool False), (''strategy'', PStr ''hybrid'')]) = Inr (False, None)
   \<and> detect_prompt_injection alarmed_sources ''I hate you''
        (PDict [(''enabled'', PBool False), (''strategy'', PStr ''hybrid'')]) = Inr (False, None)
   \<and> redact_pii alarmed_sources ''I hate you''
        (PDict [(''enabled'', PBool False), (''strategy'', PStr ''hybrid'')])
       = Inr (''I hate you'', False)"
  using disabled_is_negative [of "[(''enabled'', PBool False), (''strategy'', PStr ''hybrid'')]"
      alarmed_sources "''I hate you''"]
  by simp

section \<open>Reason and flag\<close>

lemma harmful_reason_shape:
  "case detect_harmful_content src msg cfg of
     Inl e \<Rightarrow> True | Inr (f, r) \<Rightarrow> (r \<noteq> None) = f"
  unfolding detect_harmful_content_def Let_def
  by (simp split: sum.split option.split prod.split)

lemma injection_reason_shape:
  "case detect_prompt_injection src msg cfg of
     Inl e \<Rightarrow> True | Inr (f, r) \<Rightarrow> (r \<noteq> None) = f"
  unfolding detect_prompt_injection_def Let_def
  by (simp split: sum.split option.split prod.split)

text \<open>
  Claim C3. Whenever \<^verbatim>\<open>detect_harmful_content\<close> or \<^verbatim>\<open>detect_prompt_injection\<close>
  returns a verdict, its reason is present exactly when it is flagged; this covers the
  verdicts taken from the external source under the strategies llm and hybrid, where a
  negative verdict of the source loses its reason.
\<close>

theorem reason_iff_flagged:
  "(detect_harmful_content src msg cfg = Inr (flagged, reason) \<longrightarrow> (reason \<noteq> None) = flagged)
 \<and> (detect_prompt_injection src msg cfg = Inr (flagged, reason) \<longrightarrow> (reason \<noteq> None) = flagged)"
  using harmful_reason_shape [of src msg cfg] injection_reason_shape [of src msg cfg]
  by auto

theorem reason_iff_flagged_witness:
  "detect_harmful_content cautious_sources ''hello'' (PDict [(''strategy'', PStr ''llm'')])
     = Inr (False, None)
   \<and> detect_prompt_injection cautious_sources ''hello'' (PDict [(''strategy'', PStr ''llm'')])
     = Inr (False, None)
   \<and> ((None :: string option) \<noteq> None) = False"
  using reason_iff_flagged [of cautious_sources "''hello''"
      "PDict [(''strategy'', PStr ''llm'')]" False None]
  by (simp add: detect_harmful_content_def detect_prompt_injection_def py_get_def strategy_def
      llm_decision_def wants_llm_def cautious_sources_def offline_sources_def)

section \<open>An unchanged flag means an unchanged text\<close>

lemma regex_pass_unchanged: "regex_pass t = (r, c) \<Longrightarrow> c \<or> r = t"
  by (auto simp: regex_pass_def Let_def)

lemma llm_redact_pii_unchanged: "llm_redact_pii src t cfg = Some (out, c) \<Longrightarrow> c \<or> out = t"
  by (auto simp: llm_redact_pii_def Let_def split: if_splits sum.splits)

lemma llm_pass_unchanged:
  "llm_pass src strat t cfg = (Some (out, c), calls) \<Longrightarrow> c \<or> out = t"
  by (auto simp: llm_pass_def dest: llm_redact_pii_unchanged split: if_splits)

lemma redact_pii_run_shape:
  "case redact_pii_run src t cfg of
     Inl e \<Rightarrow> True | Inr ((out, changed), calls) \<Rightarrow> changed \<or> out = t"
  unfolding redact_pii_run_def Let_def
  by (auto split: sum.split option.split prod.split
      dest: regex_pass_unchanged llm_pass_unchanged)

text \<open>
  Claim C4. If \<^verbatim>\<open>redact_pii\<close> returns \<open>changed = False\<close>, the text it returns is the
  input text, whichever of the pattern pass, the entity pass and the external second pass
  took part.
\<close>

theorem unchanged_is_identical:
  "redact_pii src msg cfg = Inr (out, False) \<Longrightarrow> out = msg"
  using redact_pii_run_shape [where src = src and t = msg and cfg = cfg]
  by (auto simp: redact_pii_def map_sum_def split: sum.splits)

theorem unchanged_is_identical_witness:
  "redact_pii cautious_sources ''see you at 5'' (PDict [(''strategy'', PStr ''hybrid'')])
     = Inr (''see you at 5'', False)
   \<and> ''see you at 5'' = ''see you at 5''"
proof -
  have h: "redact_pii cautious_sources ''see you at 5'' (PDict [(''strategy'', PStr ''hybrid'')])
     = Inr (''see you at 5'', False)"
    by code_simp
  show ?thesis
    using h unchanged_is_identical [OF h] by simp
qed

section \<open>The detectors without an external decision\<close>

lemma llm_decision_none:
  "no_external_verdict imported helper msg cfg \<Longrightarrow>
     llm_decision imported helper strat msg cfg = None"
  by (auto simp: no_external_verdict_def llm_decision_def
      split: if_splits sum.splits option.splits)

lemma llm_decision_local:
  "\<not> wants_llm strat \<Longrightarrow> llm_decision imported helper strat msg cfg = None"
  by (simp add: llm_decision_def)


lemma detect_harmful_no_llm:
  assumes "strategy cfg = Inr strat"
      and "llm_decision (llm_imported src) (llm_classify_harmful src) strat msg cfg = None"
  shows "detect_harmful_content src msg cfg
       = harmful_local src msg (py_get cfg ''enabled'' (PBool True))
           (py_get cfg ''threshold'' (PFloat (Finite (1 / 2))))"
  unfolding detect_harmful_content_def harmful_local_def Let_def assms sum.case
  by (simp split: sum.split option.split)

lemma detect_injection_no_llm:
  assumes "strategy cfg = Inr strat"
      and "llm_decision (llm_imported src) (llm_detect_injection src) strat msg cfg = None"
  shows "detect_prompt_injection src msg cfg
       = injection_local msg (py_get cfg ''enabled'' (PBool True))"
  unfolding detect_prompt_injection_def injection_local_def Let_def assms sum.case
  by (auto split: sum.split option.split)

lemma external_absent_harmful:
  assumes a: "no_external_verdict (llm_imported src) (llm_classify_harmful src) msg
                (with_strategy ''llm'' kvs)"
  shows "detect_harmful_content src msg (with_strategy ''llm'' kvs)
       = detect_harmful_content src msg (with_strategy ''ml'' kvs)"
proof -
  have en: "py_get (with_strategy ''llm'' kvs) ''enabled'' d
          = py_get (with_strategy ''ml'' kvs) ''enabled'' d" for d
    by (rule with_strategy_get) simp
  have th: "py_get (with_strategy ''llm'' kvs) ''threshold'' d
          = py_get (with_strategy ''ml'' kvs) ''threshold'' d" for d
    by (rule with_strategy_get) simp
  have "detect_harmful_content src msg (with_strategy ''llm'' kvs)
      = harmful_local src msg (py_get (with_strategy ''llm'' kvs) ''enabled'' (PBool True))
          (py_get (with_strategy ''llm'' kvs) ''threshold'' (PFloat (Finite (1 / 2))))"
    by (rule detect_harmful_no_llm [OF with_strategy_get(1) llm_decision_none [OF a]])
  moreover have "detect_harmful_content src msg (with_strategy ''ml'' kvs)
      = harmful_local src msg (py_get (with_strategy ''ml'' kvs) ''enabled'' (PBool True))
          (py_get (with_strategy ''ml'' kvs) ''threshold'' (PFloat (Finite (1 / 2))))"
    by (rule detect_harmful_no_llm [OF with_strategy_get(1) llm_decision_local])
       (simp add: wants_llm_def)
  ultimately show ?thesis
    by (simp add: en th)
qed

lemma external_absent_injection:
  assumes a: "no_external_verdict (llm_imported src) (llm_detect_injection src) msg
                (with_strategy ''llm'' kvs)"
  shows "detect_prompt_injection src msg (with_strategy ''llm'' kvs)
       = detect_prompt_injection src msg (with_strategy ''heuristic'' kvs)"
proof -
  have en: "py_get (with_strategy ''llm'' kvs) ''enabled'' d
          = py_get (with_strategy ''heuristic'' kvs) ''enabled'' d" for d
    by (rule with_strategy_get) simp
  have "detect_prompt_injection src msg (with_strategy ''llm'' kvs)
      = injection_local msg (py_get (with_strategy ''llm'' kvs) ''enabled'' (PBool True))"
    by (rule detect_injection_no_llm [OF with_strategy_get(1) llm_decision_none [OF a]])
  moreover have "detect_prompt_injection src msg (with_strategy ''heuristic'' kvs)
      = injection_local msg (py_get (with_strategy ''heuristic'' kvs) ''enabled'' (PBool True))"
    by (rule detect_injection_no_llm [OF with_strategy_get(1) llm_decision_local])
       (simp add: wants_llm_def)
  ultimately show ?thesis
    by (simp add: en)
qed

text \<open>
  Claim C6. Under the strategy llm (external), when the External Model Source is
  unavailable or gives no verdict, each of the two classifying detectors returns the
  very verdict, flag and reason, that it returns on the same text, the same sources and
  the same other policy fields under its local default strategy: \<open>ml\<close> for harmful
  content, \<open>heuristic\<close> for prompt injection.
\<close>

theorem external_absent_equals_local:
  "(no_external_verdict (llm_imported src) (llm_classify_harmful src) msg
        (with_strategy ''llm'' kvs)
      \<longrightarrow> detect_harmful_content src msg (with_strategy ''llm'' kvs)
          = detect_harmful_content src msg (with_strategy ''ml'' kvs))
 \<and> (no_external_verdict (llm_imported src) (llm_detect_injection src) msg
        (with_strategy ''llm'' kvs)
      \<longrightarrow> detect_prompt_injection src msg (with_strategy ''llm'' kvs)
          = detect_prompt_injection src msg (with_strategy ''heuristic'' kvs))"
  using external_absent_harmful external_absent_injection by blast

theorem external_absent_equals_local_witness:
  "no_external_verdict (llm_imported offline_sources) (llm_classify_harmful offline_sources)
     ''I hate you'' (with_strategy ''llm'' [])
 \<and> no_external_verdict (llm_imported offline_sources) (llm_detect_injection offline_sources)
     ''I hate you'' (with_strategy ''llm'' [])
 \<and> detect_harmful_content offline_sources ''I hate you'' (with_strategy ''llm'' [])
     = detect_harmful_content offline_sources ''I hate you'' (with_strategy ''ml'' [])
 \<and> detect_prompt_injection offline_sources ''I hate you'' (with_strategy ''llm'' [])
     = detect_prompt_injection offline_sources ''I hate you'' (with_strategy ''heuristic'' [])"
proof -
  have h1: "no_external_verdict (llm_imported offline_sources)
              (llm_classify_harmful offline_sources) ''I hate you'' (with_strategy ''llm'' [])"
    by (simp add: no_external_verdict_def offline_sources_def)
  have h2: "no_external_verdict (llm_imported offline_sources)
              (llm_detect_injection offline_sources) ''I hate you'' (with_strategy ''llm'' [])"
    by (simp add: no_external_verdict_def offline_sources_def)
  show ?thesis
    using h1 h2 external_absent_equals_local [of offline_sources "''I hate you''" "[]"]
    by blast
qed

section \<open>Hybrid fusion\<close>










section \<open>A failing entity source\<close>

lemma regex_pass_Nil: "regex_pass [] = ([], False)"
  by (simp add: regex_pass_def)

text \<open>
  Claim C10. When the entity pass runs (the policy is enabled) and the Named-Entity
  Source raises on the text left by the pattern pass, \<^verbatim>\<open>redact_pii\<close> returns exactly the
  text and flag of the pattern pass, and no text is handed to the external source,
  whatever the strategy is and whether or not the external source is available.
\<close>

theorem ner_failure_keeps_regex_stage:
  assumes ner: "nlp_ner src = Some ner"
      and fails: "ner (fst (regex_pass msg)) = Inl e"
      and en: "py_get cfg ''enabled'' (PBool True) = Inr enabled"
      and on: "truthy enabled"
  shows "redact_pii_run src msg cfg = Inr (regex_pass msg, [])
       \<and> redact_pii src msg cfg = Inr (regex_pass msg)"
proof -
  obtain strat where strat: "strategy cfg = Inr strat"
    using strategy_total [OF en] by blast
  obtain ets where ets: "py_get cfg ''entity_types'' PII_ENTITY_TYPES_TO_REDACT = Inr ets"
    using py_get_total [OF en] by blast
  obtain redacted changed where rp: "regex_pass msg = (redacted, changed)"
    by (cases "regex_pass msg")
  have run: "redact_pii_run src msg cfg = Inr (regex_pass msg, [])"
  proof (cases "msg = []")
    case True
    then show ?thesis by (simp add: redact_pii_run_def regex_pass_Nil)
  next
    case False
    with fails show ?thesis
      by (simp add: redact_pii_run_def en on strat ets rp ner)
  qed
  then show ?thesis by (simp add: redact_pii_def)
qed

theorem ner_failure_keeps_regex_stage_witness:
  "nlp_ner broken_ner_sources = Some (\<lambda>t. Inl SourceError)
 \<and> (\<lambda>t. Inl SourceError) (fst (regex_pass ''mail a@b.com'')) = (Inl SourceError :: exn + span list)
 \<and> py_get (PDict [(''strategy'', PStr ''hybrid'')]) ''enabled'' (PBool True) = Inr (PBool True)
 \<and> truthy (PBool True)
 \<and> redact_pii_run broken_ner_sources ''mail a@b.com'' (PDict [(''strategy'', PStr ''hybrid'')])
     = Inr ((''mail [EMAIL_REDACTED]'', True), [])"
proof -
  have h1: "nlp_ner broken_ner_sources = Some (\<lambda>t. Inl SourceError)"
    by (simp add: broken_ner_sources_def)
  have h2: "(\<lambda>t. Inl SourceError) (fst (regex_pass ''mail a@b.com''))
              = (Inl SourceError :: exn + span list)"
    by simp
  have h3: "py_get (PDict [(''strategy'', PStr ''hybrid'')]) ''enabled'' (PBool True)
              = Inr (PBool True)"
    by (simp add: py_get_def)
  have h4: "truthy (PBool True)"
    by simp
  have rp: "regex_pass ''mail a@b.com'' = (''mail [EMAIL_REDACTED]'', True)"
    by code_simp
  show ?thesis
    using h1 h3 ner_failure_keeps_regex_stage [OF h1 h2 h3 h4]
    by (simp add: rp)
qed

section \<open>Overlapping entity spans\<close>

text \<open>
  Claim C5. In the merge loop a span that starts before the cursor emits nothing and
  moves the cursor to the larger of cursor and span end; hence a span that overlaps the
  span emitted just before it is absorbed by it, whose label stays (first wins by
  position). For the spans \<open>(0, 10, PERSON)\<close> and \<open>(5, 15, ORG)\<close> the output is the
  single token \<open>[PERSON_REDACTED]\<close> followed by the text from offset 15 on.
\<close>

theorem overlap_first_wins:
  "(s < c1 \<longrightarrow> merge_step redacted (s, e, l) (parts, c1) = (parts, max c1 e))
 \<and> (\<not> s1 < c2 \<and> s2 < e1 \<longrightarrow>
      fold (merge_step redacted) ((s1, e1, l1) # (s2, e2, l2) # rest) (parts, c2)
      = fold (merge_step redacted) ((s1, max e1 e2, l1) # rest) (parts, c2))
 \<and> merge_spans redacted [(0, 10, ''PERSON''), (5, 15, ''ORG'')]
     = ''[PERSON_REDACTED]'' @ drop 15 redacted"
  by (simp add: merge_spans_def slice_def token_def)

theorem overlap_first_wins_witness:
  "(5 :: nat) < 10
 \<and> merge_step ''0123456789abcdefgh'' (5, 15, ''ORG'') ([[], ''[PERSON_REDACTED]''], 10)
     = ([[], ''[PERSON_REDACTED]''], 15)
 \<and> \<not> (0 :: nat) < 0
 \<and> fold (merge_step ''0123456789abcdefgh'') [(0, 10, ''PERSON''), (5, 15, ''ORG'')] ([], 0)
     = fold (merge_step ''0123456789abcdefgh'') [(0, 15, ''PERSON'')] ([], 0)
 \<and> merge_spans ''0123456789abcdefgh'' [(0, 10, ''PERSON''), (5, 15, ''ORG'')]
     = ''[PERSON_REDACTED]fgh''"
  using overlap_first_wins [where s = 5 and ?c1.0 = 10 and e = 15 and l = "''ORG''"
      and parts = "[[], ''[PERSON_REDACTED]'']" and redacted = "''0123456789abcdefgh''"]
    overlap_first_wins [where ?s1.0 = 0 and ?c2.0 = 0 and ?s2.0 = 5 and ?e1.0 = 10
      and ?e2.0 = 15 and ?l1.0 = "''PERSON''" and ?l2.0 = "''ORG''" and rest = "[]"
      and parts = "[]" and redacted = "''0123456789abcdefgh''"]
  by simp

section \<open>Malformed policies\<close>

lemma py_get_well_typed:
  "\<not> truthy cfg \<or> is_dict cfg \<Longrightarrow> \<exists>v. py_get cfg key d = Inr v"
  by (cases cfg) (auto simp: py_get_def)

lemma py_get_ill_typed:
  "truthy cfg \<Longrightarrow> \<not> is_dict cfg \<Longrightarrow> py_get cfg key d = Inl AttributeError"
  by (cases cfg) (auto simp: py_get_def)

lemma harmful_returns:
  assumes "\<not> truthy cfg \<or> is_dict cfg"
  shows "\<exists>v. detect_harmful_content src msg cfg = Inr v"
proof -
  obtain en where en: "py_get cfg ''enabled'' (PBool True) = Inr en"
    using py_get_well_typed [OF assms] by blast
  obtain thr where thr: "py_get cfg ''threshold'' (PFloat (Finite (1 / 2))) = Inr thr"
    using py_get_well_typed [OF assms] by blast
  obtain strat where strat: "strategy cfg = Inr strat"
    using strategy_total [OF en] by blast
  show ?thesis
    unfolding detect_harmful_content_def Let_def en thr strat sum.case
    by (auto split: option.split prod.split)
qed

lemma injection_returns:
  assumes "\<not> truthy cfg \<or> is_dict cfg"
  shows "\<exists>v. detect_prompt_injection src msg cfg = Inr v"
proof -
  obtain en where en: "py_get cfg ''enabled'' (PBool True) = Inr en"
    using py_get_well_typed [OF assms] by blast
  obtain strat where strat: "strategy cfg = Inr strat"
    using strategy_total [OF en] by blast
  show ?thesis
    unfolding detect_prompt_injection_def Let_def en strat sum.case
    by (auto split: option.split prod.split)
qed

lemma redact_returns:
  assumes "\<not> truthy cfg \<or> is_dict cfg"
  shows "\<exists>v. redact_pii src msg cfg = Inr v"
proof -
  obtain en where en: "py_get cfg ''enabled'' (PBool True) = Inr en"
    using py_get_well_typed [OF assms] by blast
  obtain ets where ets: "py_get cfg ''entity_types'' PII_ENTITY_TYPES_TO_REDACT = Inr ets"
    using py_get_well_typed [OF assms] by blast
  obtain strat where strat: "strategy cfg = Inr strat"
    using strategy_total [OF en] by blast
  have "\<exists>v. redact_pii_run src msg cfg = Inr v"
    unfolding redact_pii_run_def Let_def en ets strat sum.case
    by (auto split: option.split prod.split sum.split)
  then show ?thesis
    by (auto simp: redact_pii_def)
qed

lemma ill_typed_raises:
  assumes "truthy cfg" "\<not> is_dict cfg" "msg \<noteq> []"
  shows "detect_harmful_content src msg cfg = Inl AttributeError
       \<and> detect_prompt_injection src msg cfg = Inl AttributeError
       \<and> redact_pii src msg cfg = Inl AttributeError"
  using assms
  by (simp add: detect_harmful_content_def detect_prompt_injection_def redact_pii_def
      redact_pii_run_def py_get_ill_typed)

lemma ml_step_unloaded: "ml_step (src\<lparr>harmful_content_model := None\<rparr>) msg thr = None"
  by (simp add: ml_step_def)

lemma float_not_number:
  "\<not> is_number thr \<Longrightarrow> proba_ge (PredictModel predict) p thr = Inl TypeError"
  by (cases thr) (simp_all add: proba_ge_def)

lemma comparison_raises:
  assumes thr: "py_get cfg ''threshold'' (PFloat (Finite (1 / 2))) = Inr thr"
      and m: "harmful_content_model src = Some m"
      and p: "classifier_proba m msg = Inr p"
      and ge: "proba_ge m p thr = Inl e"
  shows "detect_harmful_content src msg cfg
       = detect_harmful_content (src\<lparr>harmful_content_model := None\<rparr>) msg cfg"
proof -
  have a: "llm_imported (src\<lparr>harmful_content_model := None\<rparr>) = llm_imported src"
    by simp
  have b: "llm_classify_harmful (src\<lparr>harmful_content_model := None\<rparr>)
         = llm_classify_harmful src"
    by simp
  have c: "ml_step src msg thr = None"
    by (simp add: ml_step_def m p ge)
  show ?thesis
    unfolding detect_harmful_content_def Let_def thr sum.case c ml_step_unloaded a b
    by (rule refl)
qed

lemma llm_pass_local: "\<not> wants_llm strat \<Longrightarrow> llm_pass src strat t cfg = (None, [])"
  by (simp add: llm_pass_def)

lemma falsy_policy_defaults:
  assumes "\<not> truthy cfg"
  shows "detect_harmful_content src msg cfg = detect_harmful_content src msg default_policy
       \<and> detect_prompt_injection src msg cfg = detect_prompt_injection src msg default_policy
       \<and> redact_pii src msg cfg = redact_pii src msg default_policy"
proof -
  have g: "py_get cfg key d = Inr d" for key d
    using assms by (simp add: py_get_def)
  have d1: "py_get default_policy ''enabled'' (PBool True) = Inr (PBool True)"
    and d2: "py_get default_policy ''threshold'' (PFloat (Finite (1 / 2)))
               = Inr (PFloat (Finite (1 / 2)))"
    and d3: "py_get default_policy ''entity_types'' PII_ENTITY_TYPES_TO_REDACT
               = Inr PII_ENTITY_TYPES_TO_REDACT"
    by (simp_all add: py_get_def default_policy_def)
  have s1: "strategy cfg = Inr (PStr ''ml'')"
    unfolding strategy_def by (rule g)
  have s2: "strategy default_policy = Inr (PStr ''ml'')"
    by (simp add: strategy_def py_get_def default_policy_def)
  have w: "\<not> wants_llm (PStr ''ml'')"
    by (simp add: wants_llm_def)
  have harm: "detect_harmful_content src msg cfg
            = detect_harmful_content src msg default_policy"
    unfolding detect_harmful_no_llm [OF s1 llm_decision_local [OF w]]
      detect_harmful_no_llm [OF s2 llm_decision_local [OF w]] g d1 d2
    by (rule refl)
  have inj: "detect_prompt_injection src msg cfg
           = detect_prompt_injection src msg default_policy"
    unfolding detect_injection_no_llm [OF s1 llm_decision_local [OF w]]
      detect_injection_no_llm [OF s2 llm_decision_local [OF w]] g d1
    by (rule refl)
  have red: "redact_pii src msg cfg = redact_pii src msg default_policy"
    unfolding redact_pii_def redact_pii_run_def s1 s2 g d1 d3 sum.case llm_pass_local [OF w]
    by (rule refl)
  from harm inj red show ?thesis by blast
qed

lemma falsy_enabled:
  assumes "py_get cfg ''enabled'' (PBool True) = Inr en" and "\<not> truthy en"
  shows "detect_harmful_content src msg cfg = Inr (False, None)
       \<and> detect_prompt_injection src msg cfg = Inr (False, None)
       \<and> redact_pii src msg cfg = Inr (msg, False)"
  using assms
  by (simp add: detect_harmful_content_def detect_prompt_injection_def redact_pii_def
      redact_pii_run_def)

lemma truthy_enabled:
  assumes v: "truthy v"
      and agree: "helpers_agree src msg (with_enabled v kvs) (with_enabled (PBool True) kvs)"
  shows "detect_harmful_content src msg (with_enabled v kvs)
           = detect_harmful_content src msg (with_enabled (PBool True) kvs)
       \<and> detect_prompt_injection src msg (with_enabled v kvs)
           = detect_prompt_injection src msg (with_enabled (PBool True) kvs)
       \<and> redact_pii src msg (with_enabled v kvs)
           = redact_pii src msg (with_enabled (PBool True) kvs)"
proof -
  have en: "py_get (with_enabled x kvs) ''enabled'' d = Inr x" for x d
    by (simp add: py_get_def with_enabled_def)
  have th: "py_get (with_enabled v kvs) ''threshold'' d
          = py_get (with_enabled (PBool True) kvs) ''threshold'' d" for d
    by (simp add: py_get_def with_enabled_def)
  have ets: "py_get (with_enabled v kvs) ''entity_types'' d
           = py_get (with_enabled (PBool True) kvs) ''entity_types'' d" for d
    by (simp add: py_get_def with_enabled_def)
  have st: "strategy (with_enabled v kvs) = strategy (with_enabled (PBool True) kvs)"
    by (simp add: strategy_def py_get_def with_enabled_def)
  have h1: "llm_classify_harmful src msg (with_enabled v kvs)
          = llm_classify_harmful src msg (with_enabled (PBool True) kvs)"
    using agree by (simp add: helpers_agree_def)
  have h2: "llm_detect_injection src msg (with_enabled v kvs)
          = llm_detect_injection src msg (with_enabled (PBool True) kvs)"
    using agree by (simp add: helpers_agree_def)
  have h3: "gemini_pii src t (with_enabled v kvs)
          = gemini_pii src t (with_enabled (PBool True) kvs)" for t
    using agree by (simp add: helpers_agree_def)
  have on: "(\<not> truthy v) = False" "(\<not> truthy (PBool True)) = False"
    using v by simp_all
  have harm: "detect_harmful_content src msg (with_enabled v kvs)
           = detect_harmful_content src msg (with_enabled (PBool True) kvs)"
    unfolding detect_harmful_content_def llm_decision_def Let_def en th st h1 sum.case on
    by (rule refl)
  have inj: "detect_prompt_injection src msg (with_enabled v kvs)
           = detect_prompt_injection src msg (with_enabled (PBool True) kvs)"
    unfolding detect_prompt_injection_def llm_decision_def Let_def en st h2 sum.case on
    by (rule refl)
  have red: "redact_pii src msg (with_enabled v kvs)
           = redact_pii src msg (with_enabled (PBool True) kvs)"
    unfolding redact_pii_def redact_pii_run_def llm_pass_def llm_redact_pii_def Let_def
      en ets st h3 sum.case on
    by (rule refl)
  from harm inj red show ?thesis by blast
qed

lemma unknown_strategy:
  assumes "s \<noteq> PStr ''llm''" "s \<noteq> PStr ''hybrid''"
  shows "detect_harmful_content src msg (PDict ((''strategy'', s) # kvs))
           = detect_harmful_content src msg (with_strategy ''ml'' kvs)
       \<and> detect_prompt_injection src msg (PDict ((''strategy'', s) # kvs))
           = detect_prompt_injection src msg (with_strategy ''heuristic'' kvs)
       \<and> redact_pii src msg (PDict ((''strategy'', s) # kvs))
           = redact_pii src msg (with_strategy ''ml'' kvs)"
proof -
  have s: "strategy (PDict ((''strategy'', s) # kvs)) = Inr s"
    by (simp add: strategy_def py_get_def)
  have w: "\<not> wants_llm s"
    using assms by (simp add: wants_llm_def)
  have wml: "\<not> wants_llm (PStr ''ml'')" and wh: "\<not> wants_llm (PStr ''heuristic'')"
    by (simp_all add: wants_llm_def)
  have en: "py_get (PDict ((''strategy'', s) # kvs)) ''enabled'' d
          = py_get (with_strategy x kvs) ''enabled'' d" for d x
    by (simp add: py_get_def with_strategy_def)
  have th: "py_get (PDict ((''strategy'', s) # kvs)) ''threshold'' d
          = py_get (with_strategy x kvs) ''threshold'' d" for d x
    by (simp add: py_get_def with_strategy_def)
  have ets: "py_get (PDict ((''strategy'', s) # kvs)) ''entity_types'' d
          = py_get (with_strategy x kvs) ''entity_types'' d" for d x
    by (simp add: py_get_def with_strategy_def)
  have harm: "detect_harmful_content src msg (PDict ((''strategy'', s) # kvs))
           = detect_harmful_content src msg (with_strategy ''ml'' kvs)"
    unfolding detect_harmful_no_llm [OF s llm_decision_local [OF w]]
      detect_harmful_no_llm [OF with_strategy_get(1) llm_decision_local [OF wml]]
      en [of _ "''ml''"] th [of _ "''ml''"]
    by (rule refl)
  have inj: "detect_prompt_injection src msg (PDict ((''strategy'', s) # kvs))
           = detect_prompt_injection src msg (with_strategy ''heuristic'' kvs)"
    unfolding detect_injection_no_llm [OF s llm_decision_local [OF w]]
      detect_injection_no_llm [OF with_strategy_get(1) llm_decision_local [OF wh]]
      en [of _ "''heuristic''"]
    by (rule refl)
  have red: "redact_pii src msg (PDict ((''strategy'', s) # kvs))
           = redact_pii src msg (with_strategy ''ml'' kvs)"
    unfolding redact_pii_def redact_pii_run_def s with_strategy_get(1) sum.case
      llm_pass_local [OF w] llm_pass_local [OF wml]
      en [of _ "''ml''"] ets [of _ "''ml''"]
    by (rule refl)
  from harm inj red show ?thesis by blast
qed

text \<open>
  Claim C1, as amended. For every text and every raw policy value that is absent, falsy or
  a mapping, whatever the fields of the mapping hold, each of the three detector calls
  returns normally. An absent or falsy policy behaves as the policy that spells out the
  defaults. A strategy value other than \<open>llm\<close> and \<open>hybrid\<close> behaves as the
  detector's local default strategy. The field \<open>enabled\<close> is read by its truth value: a
  truthy value of any type behaves as \<open>true\<close>, the default (the helpers of the external
  source, which are handed the policy, answering alike), and a falsy value of any type,
  such as null, 0, an empty string or an empty list, switches the detector off as
  \<open>false\<close> does. A threshold is compared as it stands, whatever its type: when the
  comparison raises, which it does with \<^verbatim>\<open>TypeError\<close> against every value that is not a
  number for the Python float of a classifier without \<^verbatim>\<open>predict_proba\<close>, the
  handler of the classifier block catches the exception and the detector answers as if no
  classifier were loaded. A truthy policy value that is not a mapping makes every
  detector raise \<^verbatim>\<open>AttributeError\<close> on a text that is not empty.
\<close>

theorem well_typed_policy_never_raises:
  "((\<not> truthy cfg \<or> is_dict cfg) \<longrightarrow>
      (\<exists>v. detect_harmful_content src msg cfg = Inr v)
    \<and> (\<exists>v. detect_prompt_injection src msg cfg = Inr v)
    \<and> (\<exists>v. redact_pii src msg cfg = Inr v))
 \<and> (\<not> truthy cfg \<longrightarrow>
      detect_harmful_content src msg cfg = detect_harmful_content src msg default_policy
    \<and> detect_prompt_injection src msg cfg = detect_prompt_injection src msg default_policy
    \<and> redact_pii src msg cfg = redact_pii src msg default_policy)
 \<and> (s \<noteq> PStr ''llm'' \<and> s \<noteq> PStr ''hybrid'' \<longrightarrow>
      detect_harmful_content src msg (PDict ((''strategy'', s) # kvs))
        = detect_harmful_content src msg (with_strategy ''ml'' kvs)
    \<and> detect_prompt_injection src msg (PDict ((''strategy'', s) # kvs))
        = detect_prompt_injection src msg (with_strategy ''heuristic'' kvs)
    \<and> redact_pii src msg (PDict ((''strategy'', s) # kvs))
        = redact_pii src msg (with_strategy ''ml'' kvs))
 \<and> (truthy v
      \<and> helpers_agree src msg (with_enabled v kvs) (with_enabled (PBool True) kvs) \<longrightarrow>
      detect_harmful_content src msg (with_enabled v kvs)
        = detect_harmful_content src msg (with_enabled (PBool True) kvs)
    \<and> detect_prompt_injection src msg (with_enabled v kvs)
        = detect_prompt_injection src msg (with_enabled (PBool True) kvs)
    \<and> redact_pii src msg (with_enabled v kvs)
        = redact_pii src msg (with_enabled (PBool True) kvs))
 \<and> (py_get cfg ''enabled'' (PBool True) = Inr en \<and> \<not> truthy en \<longrightarrow>
      detect_harmful_content src msg cfg = Inr (False, None)
    \<and> detect_prompt_injection src msg cfg = Inr (False, None)
    \<and> redact_pii src msg cfg = Inr (msg, False))
 \<and> (py_get cfg ''threshold'' (PFloat (Finite (1 / 2))) = Inr thr
      \<and> harmful_content_model src = Some m \<and> classifier_proba m msg = Inr p
      \<and> proba_ge m p thr = Inl e \<longrightarrow>
      detect_harmful_content src msg cfg
        = detect_harmful_content (src\<lparr>harmful_content_model := None\<rparr>) msg cfg)
 \<and> (\<not> is_number thr \<longrightarrow> proba_ge (PredictModel predict) q thr = Inl TypeError)
 \<and> (truthy cfg \<and> \<not> is_dict cfg \<and> msg \<noteq> [] \<longrightarrow>
      detect_harmful_content src msg cfg = Inl AttributeError
    \<and> detect_prompt_injection src msg cfg = Inl AttributeError
    \<and> redact_pii src msg cfg = Inl AttributeError)"
  using harmful_returns [of cfg src msg] injection_returns [of cfg src msg]
    redact_returns [of cfg src msg] falsy_policy_defaults [of cfg src msg]
    unknown_strategy [of s src msg kvs]
    truthy_enabled [of v src msg kvs] falsy_enabled [of cfg en src msg]
    comparison_raises [of cfg thr src m msg p e] float_not_number [of thr predict q]
    ill_typed_raises [of cfg msg src]
  by blast

theorem well_typed_policy_never_raises_witness:
  "is_dict (PDict [(''threshold'', PStr ''high'')])
 \<and> (\<exists>v. detect_harmful_content classifier_sources ''hello''
            (PDict [(''threshold'', PStr ''high'')]) = Inr v)
 \<and> \<not> truthy (PList [])
 \<and> detect_harmful_content classifier_sources ''hello'' (PList [])
     = detect_harmful_content classifier_sources ''hello'' default_policy
 \<and> PStr ''fuzzy'' \<noteq> PStr ''llm'' \<and> PStr ''fuzzy'' \<noteq> PStr ''hybrid''
 \<and> detect_harmful_content alarmed_sources ''hello'' (PDict [(''strategy'', PStr ''fuzzy'')])
     = detect_harmful_content alarmed_sources ''hello'' (with_strategy ''ml'' [])
 \<and> truthy (PStr ''yes'')
 \<and> helpers_agree alarmed_sources ''hello''
     (with_enabled (PStr ''yes'') [(''strategy'', PStr ''hybrid'')])
     (with_enabled (PBool True) [(''strategy'', PStr ''hybrid'')])
 \<and> detect_harmful_content alarmed_sources ''hello''
       (with_enabled (PStr ''yes'') [(''strategy'', PStr ''hybrid'')])
     = detect_harmful_content alarmed_sources ''hello''
         (with_enabled (PBool True) [(''strategy'', PStr ''hybrid'')])
 \<and> py_get (PDict [(''enabled'', PNone)]) ''enabled'' (PBool True) = Inr PNone
 \<and> \<not> truthy PNone
 \<and> detect_harmful_content offline_sources ''I hate you'' (PDict [(''enabled'', PNone)])
     = Inr (False, None)
 \<and> py_get (PDict [(''threshold'', PStr ''high'')]) ''threshold'' (PFloat (Finite (1 / 2)))
     = Inr (PStr ''high'')
 \<and> harmful_content_model classifier_sources
     = Some (ProbaModel (\<lambda>t. Inr (Finite (9 / 10))) elementwise_ge)
 \<and> classifier_proba (ProbaModel (\<lambda>t. Inr (Finite (9 / 10))) elementwise_ge) ''hello''
     = Inr (Finite (9 / 10))
 \<and> proba_ge (ProbaModel (\<lambda>t. Inr (Finite (9 / 10))) elementwise_ge) (Finite (9 / 10))
     (PStr ''high'') = Inl TypeError
 \<and> detect_harmful_content classifier_sources ''hello'' (PDict [(''threshold'', PStr ''high'')])
     = detect_harmful_content (classifier_sources\<lparr>harmful_content_model := None\<rparr>) ''hello''
         (PDict [(''threshold'', PStr ''high'')])
 \<and> \<not> is_number (PStr ''high'')
 \<and> proba_ge (PredictModel (\<lambda>t. Inr (PInt 1))) (Finite 1) (PStr ''high'') = Inl TypeError
 \<and> truthy (PStr ''strict'') \<and> \<not> is_dict (PStr ''strict'') \<and> ''hello'' \<noteq> []
 \<and> redact_pii offline_sources ''hello'' (PStr ''strict'') = Inl AttributeError"
proof -
  have h1: "py_get (PDict [(''threshold'', PStr ''high'')]) ''threshold''
              (PFloat (Finite (1 / 2))) = Inr (PStr ''high'')"
    by (simp add: py_get_def)
  have h2: "harmful_content_model classifier_sources
              = Some (ProbaModel (\<lambda>t. Inr (Finite (9 / 10))) elementwise_ge)"
    by (simp add: classifier_sources_def)
  have h3: "classifier_proba (ProbaModel (\<lambda>t. Inr (Finite (9 / 10))) elementwise_ge) ''hello''
              = Inr (Finite (9 / 10))"
    by (simp add: classifier_proba_def)
  have h4: "proba_ge (ProbaModel (\<lambda>t. Inr (Finite (9 / 10))) elementwise_ge) (Finite (9 / 10))
              (PStr ''high'') = Inl TypeError"
    by (simp add: proba_ge_def elementwise_ge_def)
  have h5: "helpers_agree alarmed_sources ''hello''
              (with_enabled (PStr ''yes'') [(''strategy'', PStr ''hybrid'')])
              (with_enabled (PBool True) [(''strategy'', PStr ''hybrid'')])"
    by (simp add: helpers_agree_def alarmed_sources_def cautious_sources_def
        offline_sources_def)
  have h6: "py_get (PDict [(''enabled'', PNone)]) ''enabled'' (PBool True) = Inr PNone"
    by (simp add: py_get_def)
  show ?thesis
    using h1 h2 h3 h4 h5 h6
      well_typed_policy_never_raises [where cfg = "PDict [(''threshold'', PStr ''high'')]"
        and src = classifier_sources and msg = "''hello''" and thr = "PStr ''high''"
        and s = "PStr ''ml''" and kvs = "[]" and v = PNone and en = "PBool True"
        and m = "ProbaModel (\<lambda>t. Inr (Finite (9 / 10))) elementwise_ge"
        and p = "Finite (9 / 10)" and e = TypeError
        and predict = "\<lambda>t. Inr (PInt 1)" and q = "Finite 1"]
      well_typed_policy_never_raises [where cfg = "PStr ''strict''"
        and src = offline_sources and msg = "''hello''" and thr = "PNone"
        and s = "PStr ''ml''" and kvs = "[]" and v = PNone and en = PNone]
      well_typed_policy_never_raises [where cfg = "PDict [(''enabled'', PNone)]"
        and src = offline_sources and msg = "''I hate you''" and thr = "PNone"
        and s = "PStr ''ml''" and kvs = "[]" and v = PNone and en = PNone]
      well_typed_policy_never_raises [where cfg = "PList []"
        and src = classifier_sources and msg = "''hello''" and thr = "PNone"
        and s = "PStr ''ml''" and kvs = "[]" and v = PNone and en = PNone]
      well_typed_policy_never_raises [where cfg = "PNone"
        and src = alarmed_sources and msg = "''hello''" and thr = "PNone"
        and s = "PStr ''fuzzy''" and kvs = "[]" and v = PNone and en = PNone]
      well_typed_policy_never_raises [where cfg = "PNone"
        and src = alarmed_sources and msg = "''hello''" and thr = "PNone"
        and s = "PStr ''ml''" and kvs = "[(''strategy'', PStr ''hybrid'')]"
        and v = "PStr ''yes''" and en = PNone]
    by auto
qed

text \<open>
  Claim C1 as stated fails three times. A raw policy value of the wrong type, here a
  string, makes all three detectors raise. A threshold that is not a number is not
  replaced by 0.5: with a classifier that scores 0.9 the verdict under the threshold
  \<open>high\<close> is negative, under the threshold 0.5 it is positive. And an \<open>enabled\<close> field
  that is null is not replaced by \<open>true\<close>: it switches the detectors off, so a text with
  a forbidden keyword and a text with an e-mail address pass, which under \<open>true\<close> are
  flagged and redacted.
\<close>

theorem malformed_policy_counterexample:
  "detect_harmful_content offline_sources ''hello'' (PStr ''strict'') = Inl AttributeError
 \<and> detect_prompt_injection offline_sources ''hello'' (PStr ''strict'') = Inl AttributeError
 \<and> redact_pii offline_sources ''hello'' (PStr ''strict'') = Inl AttributeError
 \<and> detect_harmful_content classifier_sources ''hello'' (PDict [(''threshold'', PStr ''high'')])
     = Inr (False, None)
 \<and> detect_harmful_content classifier_sources ''hello''
       (PDict [(''threshold'', PFloat (Finite (1 / 2)))])
     = Inr (True, Some ''Harmful content detected (confidence: 0.90)'')
 \<and> detect_harmful_content offline_sources ''I hate you'' (PDict [(''enabled'', PNone)])
     = Inr (False, None)
 \<and> detect_harmful_content offline_sources ''I hate you'' (PDict [(''enabled'', PBool True)])
     = Inr (True, Some (''Forbidden keyword detected: '' @ quoted ''hate''))
 \<and> redact_pii offline_sources ''mail a@b.com'' (PDict [(''enabled'', PNone)])
     = Inr (''mail a@b.com'', False)
 \<and> redact_pii offline_sources ''mail a@b.com'' (PDict [(''enabled'', PBool True)])
     = Inr (''mail [EMAIL_REDACTED]'', True)"
  by code_simp

text \<open>
  With a scalar that compares a list element by element, a threshold that is a list of
  one float is compared with the probability, and the classifier flags.
\<close>

lemma list_threshold_compares:
  "detect_harmful_content classifier_sources ''hello''
       (PDict [(''threshold'', PList [PFloat (Finite (1 / 2))])])
     = Inr (True, Some ''Harmful content detected (confidence: 0.90)'')"
  by code_simp

section \<open>The matching engine: basic facts\<close>

lemma run_Seq_iff:
  "k \<in> set (run (Seq a b) s) \<longleftrightarrow> (\<exists>i \<in> set (run a s). \<exists>j \<in> set (run b (drop i s)). k = i + j)"
  by auto

lemma run_Rep_iff:
  "k \<in> set (run (Rep p lo hi) s) \<longleftrightarrow>
     lo \<le> k \<and> k \<le> length (takeWhile p s) \<and> (case hi of None \<Rightarrow> True | Some h \<Rightarrow> k \<le> h)"
  by (auto simp: Let_def split: option.splits)



lemma takeWhile_take:
  assumes le: "k \<le> length (takeWhile p s)"
  shows "\<forall>c \<in> set (take k s). p c"
proof -
  have "take k s = take k (takeWhile p s @ dropWhile p s)"
    by simp
  also have "\<dots> = take k (takeWhile p s)"
    using le by (simp del: takeWhile_dropWhile_id)
  finally have "set (take k s) \<subseteq> set (takeWhile p s)"
    by (simp add: set_take_subset)
  then show ?thesis
    by (auto dest: set_takeWhileD)
qed

lemma run_bounds:
  "k \<in> set (run re s) \<Longrightarrow>
     k \<le> length s \<and> min_len re \<le> k \<and> (\<forall>c \<in> set (take k s). accepts re c)"
proof (induction re arbitrary: s k)
  case (Cls p)
  then show ?case by (cases s) (auto split: if_splits)
next
  case (Seq a b)
  from Seq.prems obtain i j where i: "i \<in> set (run a s)" and j: "j \<in> set (run b (drop i s))"
    and k: "k = i + j"
    unfolding run_Seq_iff by blast
  from Seq.IH(1) [OF i] have a: "i \<le> length s" "min_len a \<le> i" "\<forall>c \<in> set (take i s). accepts a c"
    by blast+
  from Seq.IH(2) [OF j] have b: "j \<le> length (drop i s)" "min_len b \<le> j"
       "\<forall>c \<in> set (take j (drop i s)). accepts b c"
    by blast+
  have "take k s = take i s @ take j (drop i s)"
    unfolding k by (rule take_add)
  with a b show ?case
    unfolding k by auto
next
  case (Opt a)
  from Opt.prems have "k \<in> set (run a s) \<or> k = 0" by auto
  with Opt.IH show ?case by auto
next
  case (Rep p lo hi)
  then have lo: "lo \<le> k" and le: "k \<le> length (takeWhile p s)"
    unfolding run_Rep_iff by blast+
  have "length (takeWhile p s) \<le> length s"
    by (rule length_takeWhile_le)
  with lo le takeWhile_take [OF le] show ?case
    by simp
qed


lemma phone_min_len: "min_len phone_re = 8"
  by (simp add: phone_re_def Chr_def)

lemma email_min_len: "min_len email_re = 6"
  by (simp add: email_re_def Chr_def)

lemma phone_re_positive: "k \<in> set (run phone_re s) \<Longrightarrow> 0 < k"
  using run_bounds [of k phone_re s] by (simp add: phone_min_len)

lemma email_re_positive: "k \<in> set (run email_re s) \<Longrightarrow> 0 < k"
  using run_bounds [of k email_re s] by (simp add: email_min_len)

lemma accepts_phone:
  "accepts phone_re c = (c = CHR ''+'' \<or> c = CHR ''('' \<or> c = CHR '')'' \<or> is_body c)"
  by (auto simp: phone_re_def Chr_def is_body_def is_sep_def)

lemma accepts_email:
  "accepts email_re c = (c = CHR ''@'' \<or> is_local c)"
  by (auto simp: email_re_def Chr_def is_local_def is_domain_def)

lemma re_sub_match:
  assumes "run re s = k # ks" and "0 < k"
  shows "re_sub re repl s = repl (take k s) @ re_sub re repl (drop k s)"
proof (cases s)
  case Nil
  from run_bounds [of k re s] assms show ?thesis
    by (simp add: Nil)
next
  case (Cons c cs)
  with assms show ?thesis by simp
qed

lemma re_sub_no_match:
  "run re (c # cs) = [] \<Longrightarrow> re_sub re repl (c # cs) = c # re_sub re repl cs"
  by simp

lemma filter_take_le: "length (filter P (take k s)) \<le> length (filter P s)"
  by (metis append_take_drop_id filter_append le_add1 length_append)

lemma filter_drop_le: "length (filter P (drop k s)) \<le> length (filter P s)"
  by (metis append_take_drop_id filter_append le_add2 length_append)

lemma mask_phone_cases:
  "mask_phone m = (if 8 \<le> length (filter is_digit m) then ''[PHONE_REDACTED]'' else m)"
  by (simp add: mask_phone_def)

lemma mask_phone_few: "length (filter is_digit m) < 8 \<Longrightarrow> mask_phone m = m"
  by (simp add: mask_phone_def)

lemma phone_sub_few_digits:
  "length (filter is_digit s) < 8 \<Longrightarrow> re_sub phone_re mask_phone s = s"
proof (induction s rule: length_induct)
  case (1 s)
  show ?case
  proof (cases s)
    case Nil
    then show ?thesis by simp
  next
    case (Cons c cs)
    show ?thesis
    proof (cases "run phone_re s")
      case Nil
      have "length (filter is_digit cs) < 8"
        using "1.prems" Cons by (simp split: if_splits)
      with "1.IH" Cons have "re_sub phone_re mask_phone cs = cs"
        by simp
      with Nil Cons show ?thesis by simp
    next
      case (Cons k ks)
      then have k: "0 < k"
        using phone_re_positive [of k s] by simp
      have few: "length (filter is_digit (take k s)) < 8"
        using filter_take_le [of is_digit k s] "1.prems" by simp
      have "length (filter is_digit (drop k s)) < 8"
        using filter_drop_le [of is_digit k s] "1.prems" by simp
      moreover have "length (drop k s) < length s"
        using k \<open>s = c # cs\<close> by simp
      ultimately have "re_sub phone_re mask_phone (drop k s) = drop k s"
        using "1.IH" by blast
      with re_sub_match [OF Cons k, of mask_phone] mask_phone_few [OF few] show ?thesis
        by simp
    qed
  qed
qed

lemma phone_match_not_token:
  assumes "k \<in> set (run phone_re s)"
  shows "take k s \<noteq> ''[PHONE_REDACTED]''"
proof
  assume eq: "take k s = ''[PHONE_REDACTED]''"
  then have "CHR ''['' \<in> set (take k s)" by simp
  with run_bounds [OF assms] have "accepts phone_re CHR ''[''" by blast
  then show False
    by (simp add: accepts_phone is_body_def is_digit_def is_space_def)
qed

section \<open>The matching engine looks no further than it matches\<close>

text \<open>
  The matches that end within a prefix of the input, and their order, do not depend on
  what follows the prefix (\<open>run_local\<close>). Hence a character that no class of the pattern
  takes, such as the opening bracket of a redaction token, hides everything behind it
  (\<open>run_blocked\<close>).
\<close>

lemma filter_le_upt: "filter (\<lambda>k. k \<le> b) [lo ..< Suc m] = [lo ..< Suc (min m b)]"
proof (cases "m \<le> b")
  case True
  then have "\<forall>k \<in> set [lo ..< Suc m]. k \<le> b" by auto
  then have "filter (\<lambda>k. k \<le> b) [lo ..< Suc m] = [lo ..< Suc m]"
    by (rule filter_True)
  with True show ?thesis by (simp add: min_def)
next
  case False
  then have min: "min m b = b" by simp
  show ?thesis
  proof (cases "lo \<le> Suc b")
    case True
    from False have "Suc m = Suc b + (m - b)" by simp
    then have "[lo ..< Suc m] = [lo ..< Suc b] @ [Suc b ..< Suc m]"
      using upt_add_eq_append [OF True, of "m - b"] by simp
    moreover have "filter (\<lambda>k. k \<le> b) [lo ..< Suc b] = [lo ..< Suc b]"
      by (rule filter_True) auto
    moreover have "filter (\<lambda>k. k \<le> b) [Suc b ..< Suc m] = []"
      by (rule filter_False) auto
    ultimately show ?thesis
      unfolding min by simp
  next
    case False
    then have "filter (\<lambda>k. k \<le> b) [lo ..< Suc m] = []"
      by (intro filter_False) auto
    with False show ?thesis
      unfolding min by simp
  qed
qed

lemma filter_le_rev_upt:
  "filter (\<lambda>k. k \<le> b) (rev [lo ..< Suc m]) = rev [lo ..< Suc (min m b)]"
  by (simp only: rev_filter [symmetric] filter_le_upt)

lemma takeWhile_append_min:
  "min (length (takeWhile p (pre @ x))) (length pre) = length (takeWhile p pre)"
proof (cases "\<forall>c \<in> set pre. p c")
  case True
  then have tw: "takeWhile p pre = pre"
    by (simp add: takeWhile_eq_all_conv)
  from True have "takeWhile p (pre @ x) = pre @ takeWhile p x"
    by (simp add: takeWhile_append2)
  then show ?thesis
    unfolding tw by simp
next
  case False
  then obtain c where "c \<in> set pre" "\<not> p c" by blast
  then have "takeWhile p (pre @ x) = takeWhile p pre"
    by (simp add: takeWhile_append1)
  then show ?thesis
    by (simp add: length_takeWhile_le)
qed

lemma concat_map_filter_null:
  "(\<And>i. i \<in> set xs \<Longrightarrow> \<not> Q i \<Longrightarrow> f i = []) \<Longrightarrow>
     concat (map f xs) = concat (map f (filter Q xs))"
  by (induction xs) auto

lemma run_local:
  "filter (\<lambda>k. k \<le> length pre) (run re (pre @ x))
     = filter (\<lambda>k. k \<le> length pre) (run re (pre @ y))"
proof (induction re arbitrary: pre)
  case (Cls p)
  show ?case by (cases pre; cases x; cases y) auto
next
  case (Seq a b)
  let ?P = "\<lambda>k. k \<le> length pre"
  have step: "filter ?P (run (Seq a b) (pre @ z))
      = concat (map (\<lambda>i. map (\<lambda>j. i + j)
            (filter (\<lambda>j. j \<le> length (drop i pre)) (run b (drop i pre @ z))))
          (filter ?P (run a (pre @ z))))" for z
  proof -
    have "filter ?P (run (Seq a b) (pre @ z))
        = concat (map (\<lambda>i. filter ?P (map (\<lambda>j. i + j) (run b (drop i (pre @ z)))))
            (run a (pre @ z)))"
      by (simp add: filter_concat comp_def)
    also have "\<dots> = concat (map (\<lambda>i. filter ?P (map (\<lambda>j. i + j) (run b (drop i (pre @ z)))))
            (filter ?P (run a (pre @ z))))"
      by (rule concat_map_filter_null) (auto simp: filter_empty_conv)
    also have "\<dots> = concat (map (\<lambda>i. map (\<lambda>j. i + j)
            (filter (\<lambda>j. j \<le> length (drop i pre)) (run b (drop i pre @ z))))
          (filter ?P (run a (pre @ z))))"
      by (rule arg_cong [where f = concat], rule map_cong [OF refl])
         (auto simp: filter_map comp_def intro!: filter_cong)
    finally show ?thesis .
  qed
  show ?case
    unfolding step Seq.IH(1) [of pre] Seq.IH(2) ..
next
  case (Opt a)
  then show ?case by simp
next
  case (Rep p lo hi)
  have "filter (\<lambda>k. k \<le> length pre) (run (Rep p lo hi) (pre @ z))
      = rev [lo ..< Suc (case hi of None \<Rightarrow> length (takeWhile p pre)
                         | Some h \<Rightarrow> min (length (takeWhile p pre)) h)]" for z
  proof (cases hi)
    case None
    then show ?thesis
      by (simp add: Let_def filter_le_rev_upt takeWhile_append_min del: upt_Suc)
  next
    case (Some h)
    have "min (min (length (takeWhile p (pre @ z))) h) (length pre)
        = min (min (length (takeWhile p (pre @ z))) (length pre)) h"
      by (simp add: min.assoc min.commute)
    then show ?thesis
      using Some
      by (simp add: Let_def filter_le_rev_upt takeWhile_append_min del: upt_Suc)
  qed
  then show ?case by simp
qed


lemma run_blocked:
  assumes "y = [] \<or> \<not> accepts re (hd y)"
  shows "run re (pre @ y) = filter (\<lambda>k. k \<le> length pre) (run re (pre @ x))"
proof -
  have "k \<le> length pre" if k: "k \<in> set (run re (pre @ y))" for k
  proof (rule ccontr)
    assume "\<not> k \<le> length pre"
    then have gt: "length pre < k" by simp
    from run_bounds [OF k] have le: "k \<le> length (pre @ y)"
      and acc: "\<forall>c \<in> set (take k (pre @ y)). accepts re c"
      by blast+
    from gt le have ne: "y \<noteq> []" by auto
    then have "(pre @ y) ! length pre = hd y"
      by (simp add: nth_append hd_conv_nth)
    moreover have "(pre @ y) ! length pre \<in> set (take k (pre @ y))"
      using gt le by (metis in_set_conv_nth length_take min.absorb2 nth_take)
    ultimately have "accepts re (hd y)"
      using acc by auto
    with assms ne show False by simp
  qed
  then have "filter (\<lambda>k. k \<le> length pre) (run re (pre @ y)) = run re (pre @ y)"
    by (intro filter_True) blast
  then show ?thesis
    using run_local [of pre re y x] by simp
qed

lemma run_not_accepted:
  assumes "\<not> accepts re c" and "0 < min_len re"
  shows "run re (c # u) = []"
proof (rule ccontr)
  assume "run re (c # u) \<noteq> []"
  then obtain k where k: "k \<in> set (run re (c # u))"
    by (cases "run re (c # u)") auto
  from run_bounds [OF k] assms(2) have "0 < k"
    and "\<forall>x \<in> set (take k (c # u)). accepts re x"
    by auto
  then have "accepts re c"
    by (cases k) auto
  with assms(1) show False by simp
qed

lemma run_Nil:
  assumes "0 < min_len re"
  shows "run re [] = []"
proof (rule ccontr)
  assume "run re [] \<noteq> []"
  then obtain k where k: "k \<in> set (run re [])"
    by (cases "run re []") auto
  from run_bounds [OF k] assms show False by simp
qed

lemma re_sub_skip:
  assumes "\<forall>c \<in> set w. \<not> accepts re c" and "0 < min_len re"
  shows "re_sub re repl (w @ z) = w @ re_sub re repl z"
  using assms(1)
proof (induction w)
  case Nil
  then show ?case by simp
next
  case (Cons c w)
  then have "run re (c # (w @ z)) = []"
    using run_not_accepted [OF _ assms(2)] by simp
  with Cons show ?case by simp
qed

lemma re_sub_shape:
  assumes mask: "\<And>m. repl m = m \<or> (\<exists>t. repl m = CHR ''['' # t)"
  shows "\<exists>pre x y. s = pre @ x \<and> re_sub re repl s = pre @ y \<and> (y = [] \<or> hd y = CHR ''['')"
proof (induction s rule: length_induct)
  case (1 s)
  show ?case
  proof (cases s)
    case Nil
    then show ?thesis by simp
  next
    case (Cons c cs)
    from "1.IH" Cons obtain pre x y where cs: "cs = pre @ x"
      and sub: "re_sub re repl cs = pre @ y" and y: "y = [] \<or> hd y = CHR ''[''"
      by (metis length_Cons lessI)
    have copy: ?thesis if "re_sub re repl s = c # re_sub re repl cs"
    proof -
      have "s = (c # pre) @ x" "re_sub re repl s = (c # pre) @ y"
        using that Cons cs sub by simp_all
      with y show ?thesis by blast
    qed
    show ?thesis
    proof (cases "run re s")
      case Nil
      with Cons copy show ?thesis by simp
    next
      case (Cons k ks)
      show ?thesis
      proof (cases "0 < k")
        case False
        with Cons \<open>s = c # cs\<close> copy show ?thesis by simp
      next
        case True
        have sub_s: "re_sub re repl s = repl (take k s) @ re_sub re repl (drop k s)"
          by (rule re_sub_match [OF Cons True])
        have "length (drop k s) < length s"
          using True \<open>s = c # cs\<close> by simp
        with "1.IH" obtain pre' x' y' where r: "drop k s = pre' @ x'"
          and subr: "re_sub re repl (drop k s) = pre' @ y'"
          and y': "y' = [] \<or> hd y' = CHR ''[''"
          by blast
        from mask [of "take k s"] show ?thesis
        proof
          assume "repl (take k s) = take k s"
          with sub_s subr have "re_sub re repl s = (take k s @ pre') @ y'"
            by simp
          moreover have "s = (take k s @ pre') @ x'"
            using r by (metis append_assoc append_take_drop_id)
          ultimately show ?thesis
            using y' by blast
        next
          assume "\<exists>t. repl (take k s) = CHR ''['' # t"
          then obtain t where "repl (take k s) = CHR ''['' # t" ..
          with sub_s have "re_sub re repl s = [] @ (CHR ''['' # t @ re_sub re repl (drop k s))"
            by simp
          moreover have "s = [] @ s" by simp
          ultimately show ?thesis
            by (metis list.sel(1) list.distinct(1))
        qed
      qed
    qed
  qed
qed


lemma mask_phone_masking: "mask_phone m = m \<or> (\<exists>t. mask_phone m = CHR ''['' # t)"
  by (simp add: mask_phone_def)

lemma mask_email_masking: "mask_email m = m \<or> (\<exists>t. mask_email m = CHR ''['' # t)"
  by (simp add: mask_email_def)

lemma phone_rejects_bracket: "\<not> accepts phone_re CHR ''[''"
  by (simp add: accepts_phone is_body_def is_digit_def is_space_def)

lemma email_rejects_bracket: "\<not> accepts email_re CHR ''[''"
  by (simp add: accepts_email is_local_def is_alpha_def is_digit_def)

lemma phone_rejects_token: "\<forall>c \<in> set ''[PHONE_REDACTED]''. \<not> accepts phone_re c"
  by (simp add: accepts_phone is_body_def is_digit_def is_space_def)

lemma blocked_by_bracket:
  "\<not> accepts re CHR ''['' \<Longrightarrow> y = [] \<or> hd y = CHR ''['' \<Longrightarrow> y = [] \<or> \<not> accepts re (hd y)"
  by auto

lemma phone_sub_idem:
  "re_sub phone_re mask_phone (re_sub phone_re mask_phone s) = re_sub phone_re mask_phone s"
proof (induction s rule: length_induct)
  case (1 s)
  let ?P = "re_sub phone_re mask_phone"
  show ?case
  proof (cases s)
    case Nil
    then show ?thesis by simp
  next
    case (Cons c cs)
    show ?thesis
    proof (cases "run phone_re s")
      case Nil
      then have Ps: "?P s = c # ?P cs"
        using Cons by simp
      obtain pre x y where cs: "cs = pre @ x" and sub: "?P cs = pre @ y"
        and y: "y = [] \<or> hd y = CHR ''[''"
        using re_sub_shape [OF mask_phone_masking] by blast
      have "run phone_re ((c # pre) @ y)
          = filter (\<lambda>k. k \<le> length (c # pre)) (run phone_re ((c # pre) @ x))"
        by (rule run_blocked [OF blocked_by_bracket [OF phone_rejects_bracket y]])
      also have "(c # pre) @ x = s"
        using Cons cs by simp
      finally have "run phone_re (c # ?P cs) = []"
        using Nil sub by simp
      then have "?P (c # ?P cs) = c # ?P (?P cs)"
        by simp
      moreover have "?P (?P cs) = ?P cs"
        using "1.IH" Cons by simp
      ultimately show ?thesis
        using Ps by simp
    next
      case (Cons k ks)
      then have kin: "k \<in> set (run phone_re s)" by simp
      have k: "0 < k" by (rule phone_re_positive [OF kin])
      have kle: "k \<le> length s" using run_bounds [OF kin] by simp
      have Ps: "?P s = mask_phone (take k s) @ ?P (drop k s)"
        by (rule re_sub_match [OF Cons k])
      have "length (drop k s) < length s"
        using k \<open>s = c # cs\<close> by simp
      with "1.IH" have IH: "?P (?P (drop k s)) = ?P (drop k s)"
        by blast
      show ?thesis
      proof (cases "8 \<le> length (filter is_digit (take k s))")
        case True
        then have "mask_phone (take k s) = ''[PHONE_REDACTED]''"
          by (simp add: mask_phone_def)
        then have "?P s = ''[PHONE_REDACTED]'' @ ?P (drop k s)"
          using Ps by simp
        moreover have "?P (''[PHONE_REDACTED]'' @ ?P (drop k s))
            = ''[PHONE_REDACTED]'' @ ?P (?P (drop k s))"
          by (rule re_sub_skip [OF phone_rejects_token]) (simp add: phone_min_len)
        ultimately show ?thesis
          using IH by simp
      next
        case False
        then have mp: "mask_phone (take k s) = take k s"
          by (simp add: mask_phone_def)
        then have Ps': "?P s = take k s @ ?P (drop k s)"
          using Ps by simp
        obtain pre x y where r: "drop k s = pre @ x" and sub: "?P (drop k s) = pre @ y"
          and y: "y = [] \<or> hd y = CHR ''[''"
          using re_sub_shape [OF mask_phone_masking] by blast
        have "run phone_re ((take k s @ pre) @ y)
            = filter (\<lambda>j. j \<le> length (take k s @ pre)) (run phone_re ((take k s @ pre) @ x))"
          by (rule run_blocked [OF blocked_by_bracket [OF phone_rejects_bracket y]])
        also have "(take k s @ pre) @ x = s"
          using r by (metis append_assoc append_take_drop_id)
        finally have "run phone_re (take k s @ ?P (drop k s))
            = k # filter (\<lambda>j. j \<le> length (take k s @ pre)) ks"
          using Cons sub kle by simp
        from re_sub_match [OF this k, of mask_phone]
        have "?P (take k s @ ?P (drop k s)) = mask_phone (take k s) @ ?P (?P (drop k s))"
          using kle by simp
        with mp IH Ps' show ?thesis
          by simp
      qed
    qed
  qed
qed

lemma re_sub_quiet:
  "\<forall>i. run re (drop i s) = [] \<Longrightarrow> re_sub re repl s = s"
proof (induction s)
  case Nil
  then show ?case by simp
next
  case (Cons c cs)
  from Cons.prems have "run re (drop 0 (c # cs)) = []" by blast
  then have here: "run re (c # cs) = []" by simp
  have "run re (drop i cs) = []" for i
    using Cons.prems [THEN spec, of "Suc i"] by simp
  with Cons.IH have "re_sub re repl cs = cs" by blast
  with here show ?case by simp
qed

lemma run_Cls_iff: "k \<in> set (run (Cls p) s) \<longleftrightarrow> (\<exists>c cs. s = c # cs \<and> p c \<and> k = 1)"
  by (cases s) auto

lemma email_match_at:
  assumes "k \<in> set (run email_re s)"
  shows "\<exists>i. 0 < i \<and> i \<le> length (takeWhile is_local s) \<and> i < length s \<and> s ! i = CHR ''@''"
proof -
  from assms obtain i j where i: "i \<in> set (run (Rep is_local 1 None) s)"
    and j: "j \<in> set (run (Seq (Chr CHR ''@'')
               (Seq (Rep is_domain 1 None) (Seq (Chr CHR ''.'') (Rep is_alpha 2 None))))
             (drop i s))"
    unfolding email_re_def run_Seq_iff [of k] by blast
  from i have i1: "0 < i" and i2: "i \<le> length (takeWhile is_local s)"
    unfolding run_Rep_iff by simp_all
  from j obtain a where "a \<in> set (run (Chr CHR ''@'') (drop i s))"
    unfolding run_Seq_iff [of j] by blast
  then obtain cs where d: "drop i s = CHR ''@'' # cs"
    unfolding Chr_def run_Cls_iff by blast
  then have "i < length s"
    by (metis drop_all list.distinct(1) not_le)
  moreover from this d have "s ! i = CHR ''@''"
    by (metis Cons_nth_drop_Suc list.inject)
  ultimately show ?thesis
    using i1 i2 by blast
qed

lemma email_blocked_by_close:
  assumes "CHR ''@'' \<notin> set w"
  shows "run email_re (w @ CHR '']'' # z) = []"
proof (rule ccontr)
  let ?s = "w @ CHR '']'' # z"
  assume "run email_re ?s \<noteq> []"
  then obtain k where "k \<in> set (run email_re ?s)"
    by (cases "run email_re ?s") auto
  from email_match_at [OF this] obtain i where i: "0 < i"
    and tw: "i \<le> length (takeWhile is_local ?s)" and at: "?s ! i = CHR ''@''"
    by blast
  consider "i < length w" | "i = length w" | "length w < i"
    by linarith
  then show False
  proof cases
    case 1
    then have "?s ! i \<in> set w"
      by (simp add: nth_append)
    with at assms show False by simp
  next
    case 2
    with at show False by (simp add: nth_append)
  next
    case 3
    from 3 tw have lt: "length w < length (takeWhile is_local ?s)"
      by simp
    then have "takeWhile is_local ?s ! length w = ?s ! length w"
      by (rule takeWhile_nth)
    moreover have "takeWhile is_local ?s ! length w \<in> set (takeWhile is_local ?s)"
      using lt by (rule nth_mem)
    ultimately have "is_local (?s ! length w)"
      by (auto dest: set_takeWhileD)
    moreover have "?s ! length w = CHR '']''"
      by (rule nth_append_length)
    moreover have "\<not> is_local CHR '']''"
      by (simp add: is_local_def is_alpha_def is_digit_def)
    ultimately show False
      by simp
  qed
qed

lemma quiet_token:
  assumes a: "CHR ''@'' \<notin> set a" and z: "\<forall>i. run email_re (drop i z) = []"
  shows "\<forall>i. run email_re (drop i (a @ CHR '']'' # z)) = []"
proof
  fix i
  show "run email_re (drop i (a @ CHR '']'' # z)) = []"
  proof (cases "i \<le> length a")
    case True
    then have "drop i (a @ CHR '']'' # z) = drop i a @ CHR '']'' # z"
      by simp
    moreover have "CHR ''@'' \<notin> set (drop i a)"
      using a by (meson in_set_dropD)
    ultimately show ?thesis
      by (simp add: email_blocked_by_close)
  next
    case False
    then have "i - length a = Suc (i - Suc (length a))"
      by simp
    then have "drop i (a @ CHR '']'' # z) = drop (i - Suc (length a)) z"
      using False by simp
    with z show ?thesis by simp
  qed
qed

lemma email_sub_quiet:
  "\<forall>i. run email_re (drop i (re_sub email_re mask_email s)) = []"
proof (induction s rule: length_induct)
  case (1 s)
  let ?E = "re_sub email_re mask_email"
  show ?case
  proof (cases s)
    case Nil
    then show ?thesis by (simp add: run_Nil email_min_len)
  next
    case (Cons c cs)
    show ?thesis
    proof (cases "run email_re s")
      case Nil
      then have Es: "?E s = c # ?E cs"
        using Cons by simp
      obtain pre x y where cs: "cs = pre @ x" and sub: "?E cs = pre @ y"
        and y: "y = [] \<or> hd y = CHR ''[''"
        using re_sub_shape [OF mask_email_masking] by blast
      have "run email_re ((c # pre) @ y)
          = filter (\<lambda>k. k \<le> length (c # pre)) (run email_re ((c # pre) @ x))"
        by (rule run_blocked [OF blocked_by_bracket [OF email_rejects_bracket y]])
      also have "(c # pre) @ x = s"
        using Cons cs by simp
      finally have here: "run email_re (c # ?E cs) = []"
        using Nil sub by simp
      have rest: "\<forall>i. run email_re (drop i (?E cs)) = []"
        using "1.IH" Cons by simp
      show ?thesis
      proof
        fix i
        show "run email_re (drop i (?E s)) = []"
          using here rest Es by (cases i) simp_all
      qed
    next
      case (Cons k ks)
      then have kin: "k \<in> set (run email_re s)" by simp
      have k: "0 < k" by (rule email_re_positive [OF kin])
      have "?E s = mask_email (take k s) @ ?E (drop k s)"
        by (rule re_sub_match [OF Cons k])
      then have Es: "?E s = ''[EMAIL_REDACTED'' @ CHR '']'' # ?E (drop k s)"
        by (simp add: mask_email_def)
      have "length (drop k s) < length s"
        using k \<open>s = c # cs\<close> by simp
      with "1.IH" have "\<forall>i. run email_re (drop i (?E (drop k s))) = []"
        by blast
      then show ?thesis
        unfolding Es by (intro quiet_token) simp
    qed
  qed
qed

lemma phone_sub_keeps_quiet:
  "(\<forall>i. run email_re (drop i v) = []) \<longrightarrow>
     (\<forall>i. run email_re (drop i (re_sub phone_re mask_phone v)) = [])"
proof (induction v rule: length_induct)
  case (1 v)
  let ?P = "re_sub phone_re mask_phone"
  show ?case
  proof
    assume q: "\<forall>i. run email_re (drop i v) = []"
    show "\<forall>i. run email_re (drop i (?P v)) = []"
    proof (cases v)
      case Nil
      then show ?thesis by (simp add: run_Nil email_min_len)
    next
      case (Cons c cs)
      show ?thesis
      proof (cases "run phone_re v")
        case Nil
        then have Pv: "?P v = c # ?P cs"
          using Cons by simp
        obtain pre x y where cs: "cs = pre @ x" and sub: "?P cs = pre @ y"
          and y: "y = [] \<or> hd y = CHR ''[''"
          using re_sub_shape [OF mask_phone_masking] by blast
        have "run email_re ((c # pre) @ y)
            = filter (\<lambda>k. k \<le> length (c # pre)) (run email_re ((c # pre) @ x))"
          by (rule run_blocked [OF blocked_by_bracket [OF email_rejects_bracket y]])
        also have "(c # pre) @ x = v"
          using Cons cs by simp
        finally have here: "run email_re (c # ?P cs) = []"
          using q [THEN spec, of 0] sub by simp
        have "run email_re (drop i cs) = []" for i
          using q [THEN spec, of "Suc i"] Cons by simp
        then have rest: "\<forall>i. run email_re (drop i (?P cs)) = []"
          using "1.IH" Cons by simp
        show ?thesis
        proof
          fix i
          show "run email_re (drop i (?P v)) = []"
            using here rest Pv by (cases i) simp_all
        qed
      next
        case (Cons k ks)
        then have kin: "k \<in> set (run phone_re v)" by simp
        have k: "0 < k" by (rule phone_re_positive [OF kin])
        have kle: "k \<le> length v" using run_bounds [OF kin] by simp
        have Pv: "?P v = mask_phone (take k v) @ ?P (drop k v)"
          by (rule re_sub_match [OF Cons k])
        have "run email_re (drop i (drop k v)) = []" for i
          using q [THEN spec, of "i + k"] by simp
        moreover have "length (drop k v) < length v"
          using k \<open>v = c # cs\<close> by simp
        ultimately have rest: "\<forall>i. run email_re (drop i (?P (drop k v))) = []"
          using "1.IH" by blast
        show ?thesis
        proof (cases "8 \<le> length (filter is_digit (take k v))")
          case True
          then have "mask_phone (take k v) = ''[PHONE_REDACTED'' @ [CHR '']'']"
            by (simp add: mask_phone_def)
          then have Pv': "?P v = ''[PHONE_REDACTED'' @ CHR '']'' # ?P (drop k v)"
            using Pv by simp
          from rest show ?thesis
            unfolding Pv' by (intro quiet_token) simp
        next
          case False
          then have "mask_phone (take k v) = take k v"
            by (simp add: mask_phone_def)
          then have Pv': "?P v = take k v @ ?P (drop k v)"
            using Pv by simp
          obtain pre x y where r: "drop k v = pre @ x" and sub: "?P (drop k v) = pre @ y"
            and y: "y = [] \<or> hd y = CHR ''[''"
            using re_sub_shape [OF mask_phone_masking] by blast
          show ?thesis
          proof
            fix i
            show "run email_re (drop i (?P v)) = []"
            proof (cases "i \<le> k")
              case True
              then have "drop i (?P v) = (drop i (take k v) @ pre) @ y"
                using Pv' sub kle by simp
              moreover have "run email_re ((drop i (take k v) @ pre) @ y)
                  = filter (\<lambda>j. j \<le> length (drop i (take k v) @ pre))
                      (run email_re ((drop i (take k v) @ pre) @ x))"
                by (rule run_blocked [OF blocked_by_bracket [OF email_rejects_bracket y]])
              moreover have "(drop i (take k v) @ pre) @ x = drop i v"
              proof -
                have "drop i v = drop i (take k v @ drop k v)"
                  by simp
                also have "\<dots> = drop i (take k v) @ drop k v"
                  using True kle by (simp del: append_take_drop_id)
                finally show ?thesis
                  using r by simp
              qed
              ultimately show ?thesis
                using q [THEN spec, of i] by simp
            next
              case False
              then have "drop i (?P v) = drop (i - k) (?P (drop k v))"
                using Pv' kle by simp
              with rest show ?thesis by simp
            qed
          qed
        qed
      qed
    qed
  qed
qed

lemma regex_pass_idem:
  "regex_pass (fst (regex_pass s)) = (fst (regex_pass s), False)"
proof -
  let ?E = "re_sub email_re mask_email" and ?P = "re_sub phone_re mask_phone"
  have q: "\<forall>i. run email_re (drop i (?P (?E s))) = []"
    using phone_sub_keeps_quiet [of "?E s"] email_sub_quiet [of s] by blast
  have "?E (?P (?E s)) = ?P (?E s)"
    by (rule re_sub_quiet [OF q])
  moreover have "?P (?P (?E s)) = ?P (?E s)"
    by (rule phone_sub_idem)
  ultimately show ?thesis
    by (simp add: regex_pass_def Let_def)
qed

lemma run_blocked_same:
  assumes "y = [] \<or> \<not> accepts re (hd y)"
  shows "run re (u @ y) = run re u"
proof -
  have "run re (u @ y) = filter (\<lambda>k. k \<le> length u) (run re (u @ []))"
    by (rule run_blocked [OF assms])
  moreover have "run re (u @ []) = filter (\<lambda>k. k \<le> length u) (run re (u @ []))"
    by (rule run_blocked) simp
  ultimately show ?thesis by simp
qed

lemma re_sub_append_blocked:
  assumes y: "y = [] \<or> \<not> accepts re (hd y)"
  shows "re_sub re repl (u @ y) = re_sub re repl u @ re_sub re repl y"
proof (induction u rule: length_induct)
  case (1 u)
  show ?case
  proof (cases u)
    case Nil
    then show ?thesis by simp
  next
    case (Cons c cs)
    have same: "run re (u @ y) = run re u"
      by (rule run_blocked_same [OF y])
    have IHcs: "re_sub re repl (cs @ y) = re_sub re repl cs @ re_sub re repl y"
      using "1.IH" Cons by simp
    have copy: ?thesis
      if "re_sub re repl (u @ y) = c # re_sub re repl (cs @ y)"
        and "re_sub re repl u = c # re_sub re repl cs"
      using that IHcs by simp
    show ?thesis
    proof (cases "run re u")
      case Nil
      with same Cons copy show ?thesis by simp
    next
      case (Cons k ks)
      show ?thesis
      proof (cases "0 < k")
        case False
        with Cons same \<open>u = c # cs\<close> copy show ?thesis by simp
      next
        case True
        from Cons have "k \<in> set (run re u)" by simp
        from run_bounds [OF this] have kle: "k \<le> length u" by simp
        have "re_sub re repl (u @ y) = repl (take k (u @ y)) @ re_sub re repl (drop k (u @ y))"
          by (rule re_sub_match [OF _ True]) (simp add: same Cons)
        then have a: "re_sub re repl (u @ y) = repl (take k u) @ re_sub re repl (drop k u @ y)"
          using kle by simp
        have b: "re_sub re repl u = repl (take k u) @ re_sub re repl (drop k u)"
          by (rule re_sub_match [OF Cons True])
        have "length (drop k u) < length u"
          using True \<open>u = c # cs\<close> by simp
        with "1.IH" have "re_sub re repl (drop k u @ y)
            = re_sub re repl (drop k u) @ re_sub re repl y"
          by blast
        with a b show ?thesis by simp
      qed
    qed
  qed
qed

lemma re_sub_copy:
  "\<forall>i < length w. run re (drop i w @ z) = [] \<Longrightarrow> re_sub re repl (w @ z) = w @ re_sub re repl z"
proof (induction w)
  case Nil
  then show ?case by simp
next
  case (Cons c w)
  from Cons.prems have "run re (drop 0 (c # w) @ z) = []" by blast
  then have here: "run re (c # (w @ z)) = []" by simp
  have "\<forall>i < length w. run re (drop i w @ z) = []"
  proof (intro allI impI)
    fix i assume "i < length w"
    then have "run re (drop (Suc i) (c # w) @ z) = []"
      using Cons.prems by (metis Suc_less_eq length_Cons)
    then show "run re (drop i w @ z) = []" by simp
  qed
  with Cons.IH have "re_sub re repl (w @ z) = w @ re_sub re repl z" by blast
  with here show ?case by simp
qed

lemma email_rejects_close: "\<not> accepts email_re CHR '']''"
  by (simp add: accepts_email is_local_def is_alpha_def is_digit_def)

lemma email_sub_token:
  assumes "CHR ''@'' \<notin> set label"
  shows "re_sub email_re mask_email (token label @ v)
       = token label @ re_sub email_re mask_email v"
proof -
  let ?E = "re_sub email_re mask_email"
  let ?w = "label @ ''_REDACTED''"
  have tok: "token label @ v = CHR ''['' # (?w @ CHR '']'' # v)"
    by (simp add: token_def)
  have "run email_re (CHR ''['' # (?w @ CHR '']'' # v)) = []"
    by (rule run_not_accepted [OF email_rejects_bracket]) (simp add: email_min_len)
  then have 1: "?E (CHR ''['' # (?w @ CHR '']'' # v)) = CHR ''['' # ?E (?w @ CHR '']'' # v)"
    by simp
  have "\<forall>i < length ?w. run email_re (drop i ?w @ CHR '']'' # v) = []"
  proof (intro allI impI)
    fix i
    have "CHR ''@'' \<notin> set ?w" using assms by simp
    then have "CHR ''@'' \<notin> set (drop i ?w)" by (meson in_set_dropD)
    then show "run email_re (drop i ?w @ CHR '']'' # v) = []"
      by (rule email_blocked_by_close)
  qed
  then have 2: "?E (?w @ CHR '']'' # v) = ?w @ ?E (CHR '']'' # v)"
    by (rule re_sub_copy)
  have "run email_re (CHR '']'' # v) = []"
    by (rule run_not_accepted [OF email_rejects_close]) (simp add: email_min_len)
  then have 3: "?E (CHR '']'' # v) = CHR '']'' # ?E v"
    by simp
  show ?thesis
    unfolding tok 1 2 3 by (simp add: token_def)
qed

lemma phone_sub_token:
  assumes "\<forall>c \<in> set label. is_alpha c \<or> c = CHR ''_''"
  shows "re_sub phone_re mask_phone (token label @ v)
       = token label @ re_sub phone_re mask_phone v"
proof (rule re_sub_skip)
  have "\<not> accepts phone_re c" if "is_alpha c \<or> c = CHR ''_''" for c
    using that by (auto simp: accepts_phone is_body_def is_digit_def is_space_def is_alpha_def)
  with assms have "\<forall>c \<in> set label. \<not> accepts phone_re c" by blast
  moreover have "\<forall>c \<in> set ''[_REDACTED]''. \<not> accepts phone_re c"
    by (simp add: accepts_phone is_body_def is_digit_def is_space_def)
  ultimately show "\<forall>c \<in> set (token label). \<not> accepts phone_re c"
    by (auto simp: token_def)
  show "0 < min_len phone_re" by (simp add: phone_min_len)
qed

lemma token_hd: "hd (token label @ v) = CHR ''[''" "token label @ v \<noteq> []"
  by (simp_all add: token_def)

lemma token_barrier:
  assumes "\<forall>c \<in> set label. is_alpha c \<or> c = CHR ''_''"
  shows "fst (regex_pass (u @ token label @ v))
       = fst (regex_pass u) @ token label @ fst (regex_pass v)"
proof -
  let ?E = "re_sub email_re mask_email" and ?P = "re_sub phone_re mask_phone"
  have no_at: "CHR ''@'' \<notin> set label"
    using assms by (auto simp: is_alpha_def)
  have "?E (u @ token label @ v) = ?E u @ ?E (token label @ v)"
    by (rule re_sub_append_blocked) (simp add: token_hd email_rejects_bracket)
  then have E: "?E (u @ token label @ v) = ?E u @ token label @ ?E v"
    by (simp add: email_sub_token [OF no_at])
  have "?P (?E u @ token label @ ?E v) = ?P (?E u) @ ?P (token label @ ?E v)"
    by (rule re_sub_append_blocked) (simp add: token_hd phone_rejects_bracket)
  then have "?P (?E u @ token label @ ?E v) = ?P (?E u) @ token label @ ?P (?E v)"
    by (simp add: phone_sub_token [OF assms])
  with E show ?thesis
    by (simp add: regex_pass_def Let_def)
qed


lemma llm_pass_flag:
  "llm_pass src strat t cfg = (Some (out, c), calls) \<Longrightarrow> c = (out \<noteq> t)"
  by (auto simp: llm_pass_def llm_redact_pii_def Let_def split: if_splits sum.splits)

lemma second_pass_run:
  assumes en: "py_get cfg ''enabled'' (PBool True) = Inr enabled"
      and strat: "strategy cfg = Inr strat"
      and ets: "py_get cfg ''entity_types'' PII_ENTITY_TYPES_TO_REDACT = Inr entity_types"
      and rp: "regex_pass t1 = (t1, False)"
      and ner: "no_entity_spans src t1 entity_types"
      and ext: "external_keeps src strat t1 cfg"
  shows "\<exists>calls. redact_pii_run src t1 cfg = Inr ((t1, False), calls)"
proof -
  obtain r calls where lp: "llm_pass src strat t1 cfg = (r, calls)"
    by (cases "llm_pass src strat t1 cfg")
  have r: "r = None \<or> r = Some (t1, False)"
  proof (cases r)
    case None
    then show ?thesis by simp
  next
    case (Some a)
    obtain out c where a: "a = (out, c)" by (cases a)
    from ext lp Some a have "out = t1"
      by (simp add: external_keeps_def)
    moreover from llm_pass_flag [of src strat t1 cfg out c calls] lp Some a
    have "c = (out \<noteq> t1)" by simp
    ultimately show ?thesis
      using Some a by simp
  qed
  have stage: "(case llm_pass src strat t1 cfg of
                  (Some (out_text, out_changed), calls) \<Rightarrow>
                    Inr ((out_text, False \<or> out_changed), calls)
                | (None, calls) \<Rightarrow> Inr ((t1, False), calls))
             = Inr ((t1, False), calls)"
    using r lp by auto
  show ?thesis
    unfolding redact_pii_run_def en strat ets rp sum.case prod.case
    using ner stage
    by (auto simp: no_entity_spans_def split: option.split sum.split)
qed

section \<open>A second call\<close>

text \<open>
  Claim C9, as amended. Let \<open>t1\<close> be the text that the pattern pass of a first call
  leaves. If on \<open>t1\<close> the Named-Entity Source offers no span with a label of the policy
  and the external source is not consulted, gives nothing or returns \<open>t1\<close> unchanged, a
  call of \<^verbatim>\<open>redact_pii\<close> on \<open>t1\<close> under the same policy returns \<open>t1\<close> with
  \<open>changed = False\<close>: the pattern pass rewrites nothing in its own output. Moreover a
  token \<open>[LABEL_REDACTED]\<close> whose label is made of letters and underscores (EMAIL and
  PHONE among them) is never rewritten, wherever it stands: the pattern pass treats the
  text before it and the text behind it as if each stood alone.
\<close>

theorem second_pass_changes_nothing:
  assumes en: "py_get cfg ''enabled'' (PBool True) = Inr enabled"
      and strat: "strategy cfg = Inr strat"
      and ets: "py_get cfg ''entity_types'' PII_ENTITY_TYPES_TO_REDACT = Inr entity_types"
      and ner: "no_entity_spans src (fst (regex_pass msg)) entity_types"
      and ext: "external_keeps src strat (fst (regex_pass msg)) cfg"
  shows "redact_pii src (fst (regex_pass msg)) cfg = Inr (fst (regex_pass msg), False)
       \<and> (is_label label \<longrightarrow>
            fst (regex_pass (u @ token label @ v))
              = fst (regex_pass u) @ token label @ fst (regex_pass v))"
proof -
  from second_pass_run [OF en strat ets regex_pass_idem ner ext]
  have "redact_pii src (fst (regex_pass msg)) cfg = Inr (fst (regex_pass msg), False)"
    by (auto simp: redact_pii_def)
  moreover have "fst (regex_pass (u @ token label @ v))
              = fst (regex_pass u) @ token label @ fst (regex_pass v)" if "is_label label"
    using that by (intro token_barrier) (simp add: is_label_def list_all_iff)
  ultimately show ?thesis by blast
qed

theorem second_pass_changes_nothing_witness:
  "py_get (PDict [(''strategy'', PStr ''hybrid'')]) ''enabled'' (PBool True) = Inr (PBool True)
 \<and> strategy (PDict [(''strategy'', PStr ''hybrid'')]) = Inr (PStr ''hybrid'')
 \<and> py_get (PDict [(''strategy'', PStr ''hybrid'')]) ''entity_types'' PII_ENTITY_TYPES_TO_REDACT
     = Inr PII_ENTITY_TYPES_TO_REDACT
 \<and> fst (regex_pass ''mail a@b.com'') = ''mail [EMAIL_REDACTED]''
 \<and> no_entity_spans cautious_sources ''mail [EMAIL_REDACTED]'' PII_ENTITY_TYPES_TO_REDACT
 \<and> external_keeps cautious_sources (PStr ''hybrid'') ''mail [EMAIL_REDACTED]''
       (PDict [(''strategy'', PStr ''hybrid'')])
 \<and> redact_pii cautious_sources ''mail [EMAIL_REDACTED]'' (PDict [(''strategy'', PStr ''hybrid'')])
     = Inr (''mail [EMAIL_REDACTED]'', False)
 \<and> is_label ''PERSON''
 \<and> fst (regex_pass (''call 555-123-4567 '' @ token ''PERSON'' @ '' or a@b.com''))
     = ''call [PHONE_REDACTED] [PERSON_REDACTED] or [EMAIL_REDACTED]''"
proof -
  have h1: "py_get (PDict [(''strategy'', PStr ''hybrid'')]) ''enabled'' (PBool True)
              = Inr (PBool True)"
    by (simp add: py_get_def)
  have h2: "strategy (PDict [(''strategy'', PStr ''hybrid'')]) = Inr (PStr ''hybrid'')"
    by (simp add: strategy_def py_get_def)
  have h3: "py_get (PDict [(''strategy'', PStr ''hybrid'')]) ''entity_types''
              PII_ENTITY_TYPES_TO_REDACT = Inr PII_ENTITY_TYPES_TO_REDACT"
    by (simp add: py_get_def)
  have rp: "fst (regex_pass ''mail a@b.com'') = ''mail [EMAIL_REDACTED]''"
    by code_simp
  have h4: "no_entity_spans cautious_sources (fst (regex_pass ''mail a@b.com''))
              PII_ENTITY_TYPES_TO_REDACT"
    by (simp add: no_entity_spans_def cautious_sources_def offline_sources_def)
  have h5: "external_keeps cautious_sources (PStr ''hybrid'') (fst (regex_pass ''mail a@b.com''))
              (PDict [(''strategy'', PStr ''hybrid'')])"
    unfolding rp by code_simp
  have h6: "is_label ''PERSON''"
    by (simp add: is_label_def is_alpha_def)
  have u: "fst (regex_pass ''call 555-123-4567 '') = ''call [PHONE_REDACTED] ''"
    by code_simp
  have v: "fst (regex_pass '' or a@b.com'') = '' or [EMAIL_REDACTED]''"
    by code_simp
  show ?thesis
    using h1 h2 h3 h4 h5 h6
      second_pass_changes_nothing [OF h1 h2 h3 h4 h5, of "''PERSON''" "''call 555-123-4567 ''"
        "'' or a@b.com''"]
    by (simp add: rp u v token_def)
qed

text \<open>
  Claim C9 as stated fails after an entity replacement. In \<open>2001 - 1 (12) 345 - 67\<close> the
  phone pattern matches \<open>2001 - 1\<close> and \<open>(12) 345 - 67\<close>, with 5 and 7 digits, so the
  first pattern pass changes nothing; the entity source labels the year, and the first
  call returns \<open>[DATE_REDACTED] - 1 (12) 345 - 67\<close>. On that text the entity source
  reports nothing and the external source returns it unchanged, yet the second call
  finds the match \<open>1 (12) 345 - 67\<close> with 8 digits and returns another text with
  \<open>changed = True\<close>.
\<close>

theorem second_pass_counterexample:
  "redact_pii dating_sources ''2001 - 1 (12) 345 - 67''
     (PDict [(''strategy'', PStr ''hybrid''), (''entity_types'', PList [PStr ''DATE''])])
     = Inr (''[DATE_REDACTED] - 1 (12) 345 - 67'', True)
 \<and> no_entity_spans dating_sources ''[DATE_REDACTED] - 1 (12) 345 - 67'' (PList [PStr ''DATE''])
 \<and> llm_redact_pii dating_sources ''[DATE_REDACTED] - 1 (12) 345 - 67''
       (PDict [(''strategy'', PStr ''hybrid''), (''entity_types'', PList [PStr ''DATE''])])
     = Some (''[DATE_REDACTED] - 1 (12) 345 - 67'', False)
 \<and> redact_pii dating_sources ''[DATE_REDACTED] - 1 (12) 345 - 67''
     (PDict [(''strategy'', PStr ''hybrid''), (''entity_types'', PList [PStr ''DATE''])])
     = Inr (''[DATE_REDACTED] - [PHONE_REDACTED]'', True)"
  by code_simp

section \<open>The digit threshold of the phone pattern\<close>

lemma email_sub_no_at:
  assumes "CHR ''@'' \<notin> set s"
  shows "re_sub email_re mask_email s = s"
proof (rule re_sub_quiet, rule allI)
  fix i
  show "run email_re (drop i s) = []"
  proof (rule ccontr)
    assume "run email_re (drop i s) \<noteq> []"
    then obtain k where "k \<in> set (run email_re (drop i s))"
      by (cases "run email_re (drop i s)") auto
    from email_match_at [OF this] obtain j
      where "j < length (drop i s)" and "drop i s ! j = CHR ''@''"
      by blast
    then have "CHR ''@'' \<in> set (drop i s)"
      using nth_mem by metis
    then have "CHR ''@'' \<in> set s"
      using set_drop_subset by fastforce
    with assms show False by simp
  qed
qed

lemma regex_pass_no_at:
  "CHR ''@'' \<notin> set s \<Longrightarrow> fst (regex_pass s) = re_sub phone_re mask_phone s"
  by (simp add: regex_pass_def Let_def email_sub_no_at)

lemma email_sub_digits:
  "length (filter is_digit (re_sub email_re mask_email s)) \<le> length (filter is_digit s)"
proof (induction s rule: length_induct)
  case (1 s)
  show ?case
  proof (cases s)
    case Nil
    then show ?thesis by simp
  next
    case (Cons c cs)
    show ?thesis
    proof (cases "run email_re s")
      case Nil
      from "1.IH" Cons have "length (filter is_digit (re_sub email_re mask_email cs))
                           \<le> length (filter is_digit cs)"
        by simp
      with Nil Cons show ?thesis by simp
    next
      case (Cons k ks)
      then have k: "0 < k"
        using email_re_positive [of k s] by simp
      have "length (drop k s) < length s"
        using k \<open>s = c # cs\<close> by simp
      with "1.IH" have "length (filter is_digit (re_sub email_re mask_email (drop k s)))
                      \<le> length (filter is_digit (drop k s))"
        by blast
      also have "\<dots> \<le> length (filter is_digit s)"
        by (rule filter_drop_le)
      finally have "length (filter is_digit (re_sub email_re mask_email (drop k s)))
                  \<le> length (filter is_digit s)" .
      moreover have "filter is_digit (mask_email (take k s)) = []"
        by (simp add: mask_email_def is_digit_def)
      ultimately show ?thesis
        using re_sub_match [OF Cons k, of mask_email] by simp
    qed
  qed
qed

lemma regex_pass_few_digits:
  assumes "length (filter is_digit s) < 8"
  shows "fst (regex_pass s) = re_sub email_re mask_email s"
proof -
  have "length (filter is_digit (re_sub email_re mask_email s)) < 8"
    using email_sub_digits [of s] assms by simp
  from phone_sub_few_digits [OF this] show ?thesis
    by (simp add: regex_pass_def Let_def)
qed

lemma redact_pii_pattern_only:
  assumes "nlp_ner src = None" and "\<not> llm_imported src"
      and en: "py_get cfg ''enabled'' (PBool True) = Inr enabled" and "truthy enabled"
  shows "redact_pii src msg cfg = Inr (regex_pass msg)"
proof -
  obtain strat where strat: "strategy cfg = Inr strat"
    using strategy_total [OF en] by blast
  obtain redacted changed where rp: "regex_pass msg = (redacted, changed)"
    by (cases "regex_pass msg")
  show ?thesis
  proof (cases "msg = []")
    case True
    then show ?thesis
      by (simp add: redact_pii_def redact_pii_run_def regex_pass_Nil)
  next
    case False
    with assms show ?thesis
      by (simp add: redact_pii_def redact_pii_run_def strat rp llm_pass_def)
  qed
qed

lemma regex_pass_flag: "snd (regex_pass s) = (fst (regex_pass s) \<noteq> s)"
  by (simp add: regex_pass_def Let_def)

text \<open>
  Claim C8. The pattern pass of \<^verbatim>\<open>redact_pii\<close> returns the phone substitution of the
  e-mail substitution of the text, and its flag tells whether the text changed. Where
  the scan of the phone substitution finds a match of the phone pattern, the matched text
  (never itself the token) is replaced by \<open>[PHONE_REDACTED]\<close> if it holds at least 8
  digits and is copied unchanged otherwise, and the scan goes on behind it; where it
  finds none, it copies one character. On a text without \<open>@\<close>, which the e-mail
  substitution leaves alone, this is the pattern pass itself. A text with fewer than 8
  digits passes the phone substitution unchanged, so the pattern pass does to it what
  the e-mail substitution does, and nothing if it has no \<open>@\<close>. With no entity source
  and no external helper an enabled \<^verbatim>\<open>redact_pii\<close> returns the result of the pattern
  pass: it leaves \<open>2024\<close> as it is and replaces the phone number, not the year, in
  \<open>call 555-123-4567 in 2024\<close>.
\<close>

theorem phone_digit_threshold:
  "fst (regex_pass msg) = re_sub phone_re mask_phone (re_sub email_re mask_email msg)
 \<and> snd (regex_pass msg) = (fst (regex_pass msg) \<noteq> msg)
 \<and> (run phone_re s = k # ks \<longrightarrow>
      re_sub phone_re mask_phone s
        = (if 8 \<le> length (filter is_digit (take k s))
           then ''[PHONE_REDACTED]'' else take k s)
          @ re_sub phone_re mask_phone (drop k s)
    \<and> take k s \<noteq> ''[PHONE_REDACTED]'')
 \<and> (run phone_re (c # cs) = [] \<longrightarrow>
      re_sub phone_re mask_phone (c # cs) = c # re_sub phone_re mask_phone cs)
 \<and> (CHR ''@'' \<notin> set s \<and> run phone_re s = k # ks \<longrightarrow>
      fst (regex_pass s)
        = (if 8 \<le> length (filter is_digit (take k s))
           then ''[PHONE_REDACTED]'' else take k s)
          @ fst (regex_pass (drop k s)))
 \<and> (CHR ''@'' \<notin> set (c # cs) \<and> run phone_re (c # cs) = [] \<longrightarrow>
      fst (regex_pass (c # cs)) = c # fst (regex_pass cs))
 \<and> (length (filter is_digit s) < 8 \<longrightarrow>
      re_sub phone_re mask_phone s = s
    \<and> fst (regex_pass s) = re_sub email_re mask_email s)
 \<and> (CHR ''@'' \<notin> set s \<and> length (filter is_digit s) < 8 \<longrightarrow> regex_pass s = (s, False))
 \<and> (nlp_ner src = None \<and> \<not> llm_imported src
      \<and> py_get cfg ''enabled'' (PBool True) = Inr enabled \<and> truthy enabled \<longrightarrow>
      redact_pii src msg cfg = Inr (regex_pass msg))
 \<and> regex_pass ''2024'' = (''2024'', False)
 \<and> redact_pii offline_sources ''call 555-123-4567 in 2024'' PNone
     = Inr (''call [PHONE_REDACTED] in 2024'', True)"
proof -
  have link: "fst (regex_pass msg) = re_sub phone_re mask_phone (re_sub email_re mask_email msg)"
    by (simp add: regex_pass_def Let_def)
  have a: "re_sub phone_re mask_phone s
        = (if 8 \<le> length (filter is_digit (take k s))
           then ''[PHONE_REDACTED]'' else take k s)
          @ re_sub phone_re mask_phone (drop k s)
       \<and> take k s \<noteq> ''[PHONE_REDACTED]''" if m: "run phone_re s = k # ks"
  proof -
    have k: "k \<in> set (run phone_re s)" using m by simp
    from re_sub_match [OF m phone_re_positive [OF k], of mask_phone] phone_match_not_token [OF k]
    show ?thesis by (simp add: mask_phone_cases)
  qed
  have b: "re_sub phone_re mask_phone (c # cs) = c # re_sub phone_re mask_phone cs"
    if "run phone_re (c # cs) = []"
    using that by simp
  have a': "fst (regex_pass s)
        = (if 8 \<le> length (filter is_digit (take k s))
           then ''[PHONE_REDACTED]'' else take k s)
          @ fst (regex_pass (drop k s))"
    if na: "CHR ''@'' \<notin> set s" and m: "run phone_re s = k # ks"
  proof -
    have "CHR ''@'' \<notin> set (drop k s)"
      using na set_drop_subset [of k s] by blast
    from regex_pass_no_at [OF this] regex_pass_no_at [OF na] a [OF m] show ?thesis
      by (simp only:)
  qed
  have b': "fst (regex_pass (c # cs)) = c # fst (regex_pass cs)"
    if na: "CHR ''@'' \<notin> set (c # cs)" and m: "run phone_re (c # cs) = []"
  proof -
    have "CHR ''@'' \<notin> set cs"
      using na by simp
    from regex_pass_no_at [OF this] regex_pass_no_at [OF na] b [OF m] show ?thesis
      by (simp only:)
  qed
  have d: "regex_pass s = (s, False)"
    if na: "CHR ''@'' \<notin> set s" and few: "length (filter is_digit s) < 8"
  proof -
    have "fst (regex_pass s) = s"
      using regex_pass_few_digits [OF few] email_sub_no_at [OF na] by simp
    with regex_pass_flag [of s] show ?thesis
      by (cases "regex_pass s") simp
  qed
  have e: "regex_pass ''2024'' = (''2024'', False)"
    by code_simp
  have f: "redact_pii offline_sources ''call 555-123-4567 in 2024'' PNone
             = Inr (''call [PHONE_REDACTED] in 2024'', True)"
    by code_simp
  from link regex_pass_flag [of msg] a b a' b' d e f phone_sub_few_digits [of s]
    regex_pass_few_digits [of s] redact_pii_pattern_only [of src cfg enabled msg]
  show ?thesis by blast
qed

theorem phone_digit_threshold_witness:
  "run phone_re ''555-123-4567 now'' = 12 # [11, 10, 9, 12, 11, 10, 9]
 \<and> CHR ''@'' \<notin> set ''555-123-4567 now''
 \<and> fst (regex_pass ''555-123-4567 now'') = ''[PHONE_REDACTED] now''
 \<and> run phone_re ''1      2 or 3'' = 8 # []
 \<and> CHR ''@'' \<notin> set ''1      2 or 3''
 \<and> fst (regex_pass ''1      2 or 3'') = ''1      2 or 3''
 \<and> run phone_re ''a2024'' = []
 \<and> CHR ''@'' \<notin> set ''a2024''
 \<and> fst (regex_pass ''a2024'') = ''a2024''
 \<and> length (filter is_digit ''2024'') < 8
 \<and> CHR ''@'' \<notin> set ''2024''
 \<and> regex_pass ''2024'' = (''2024'', False)
 \<and> nlp_ner offline_sources = None
 \<and> \<not> llm_imported offline_sources
 \<and> py_get PNone ''enabled'' (PBool True) = Inr (PBool True)
 \<and> truthy (PBool True)
 \<and> redact_pii offline_sources ''555-123-4567 now'' PNone = Inr (''[PHONE_REDACTED] now'', True)"
proof -
  have h1: "run phone_re ''555-123-4567 now'' = 12 # [11, 10, 9, 12, 11, 10, 9]"
    by code_simp
  have h2: "run phone_re ''1      2 or 3'' = 8 # []"
    by code_simp
  have h3: "run phone_re ''a2024'' = []"
    by code_simp
  have h4: "length (filter is_digit ''2024'') < 8"
    by (simp add: is_digit_def)
  have h5: "nlp_ner offline_sources = None" and h6: "\<not> llm_imported offline_sources"
    by (simp_all add: offline_sources_def)
  have h7: "py_get PNone ''enabled'' (PBool True) = Inr (PBool True)"
    by (simp add: py_get_def)
  have h8: "truthy (PBool True)"
    by simp
  have n1: "CHR ''@'' \<notin> set ''555-123-4567 now''"
    and n2: "CHR ''@'' \<notin> set ''1      2 or 3''"
    and n3: "CHR ''@'' \<notin> set ''a2024''"
    and n4: "CHR ''@'' \<notin> set ''2024''"
    by simp_all
  have r1: "fst (regex_pass '' now'') = '' now''"
    by code_simp
  have r2: "fst (regex_pass '' or 3'') = '' or 3''"
    by code_simp
  note t1 = phone_digit_threshold [where s = "''555-123-4567 now''" and k = 12
      and ks = "[11, 10, 9, 12, 11, 10, 9]" and c = "CHR ''a''" and cs = "''2024''"
      and msg = "''555-123-4567 now''" and src = offline_sources and cfg = PNone
      and enabled = "PBool True"]
  note t2 = phone_digit_threshold [where s = "''1      2 or 3''" and k = 8 and ks = "[]"
      and c = "CHR ''a''" and cs = "''2024''"
      and msg = "''2024''" and src = offline_sources and cfg = PNone
      and enabled = "PBool True"]
  note t3 = phone_digit_threshold [where s = "''2024''" and k = 0 and ks = "[]"
      and c = "CHR ''a''" and cs = "''2024''"
      and msg = "''2024''" and src = offline_sources and cfg = PNone
      and enabled = "PBool True"]
  have w1: "fst (regex_pass ''555-123-4567 now'')
              = (if 8 \<le> length (filter is_digit (take 12 ''555-123-4567 now''))
                 then ''[PHONE_REDACTED]'' else take 12 ''555-123-4567 now'')
                @ fst (regex_pass (drop 12 ''555-123-4567 now''))"
    using t1 h1 n1 by blast
  have w1': "fst (regex_pass ''555-123-4567 now'') = ''[PHONE_REDACTED] now''"
    using w1 by (simp add: is_digit_def r1)
  have w2: "fst (regex_pass ''1      2 or 3'')
              = (if 8 \<le> length (filter is_digit (take 8 ''1      2 or 3''))
                 then ''[PHONE_REDACTED]'' else take 8 ''1      2 or 3'')
                @ fst (regex_pass (drop 8 ''1      2 or 3''))"
    using t2 h2 n2 by blast
  have w2': "fst (regex_pass ''1      2 or 3'') = ''1      2 or 3''"
    using w2 by (simp add: is_digit_def r2)
  have w3: "regex_pass ''2024'' = (''2024'', False)"
    using t3 h4 n4 by blast
  have w4: "fst (regex_pass (CHR ''a'' # ''2024'')) = CHR ''a'' # fst (regex_pass ''2024'')"
    using t3 h3 n3 by blast
  have w4': "fst (regex_pass ''a2024'') = ''a2024''"
    using w4 by (simp add: w3)
  have w5: "redact_pii offline_sources ''555-123-4567 now'' PNone
              = Inr (regex_pass ''555-123-4567 now'')"
    using t1 h5 h6 h7 h8 by blast
  have w6: "snd (regex_pass ''555-123-4567 now'')
              = (fst (regex_pass ''555-123-4567 now'') \<noteq> ''555-123-4567 now'')"
    using t1 by blast
  have w7: "regex_pass ''555-123-4567 now'' = (''[PHONE_REDACTED] now'', True)"
    using w1' w6 by (simp add: prod_eq_iff)
  have w5': "redact_pii offline_sources ''555-123-4567 now'' PNone
               = Inr (''[PHONE_REDACTED] now'', True)"
    using w5 w7 by simp
  from h1 h2 h3 h4 h5 h6 h7 h8 n1 n2 n3 n4 w1' w2' w3 w4' w5' show ?thesis
    by blast
qed

end
